theory Spec2Isabelle
  imports Main "HOL-Library.Word"
begin

unbundle bit_operations_syntax

section \<open>Machine types of mxflib\<close>

text \<open>Modelled from the spec: the integer types of \<open>system.h\<close> and \<open>types.h\<close>, which are
  not among the sources. \<open>Position\<close> is signed and 64 bits wide: a start position "can be
  negative for pre-charge", and the lowest one is \<open>-(2^63 - 1)\<close> (\<open>IndexTable::IndexLowest\<close>
  in \<open>index.cpp\<close>). A word holds the bits; \<open>sint\<close> reads a signed type, \<open>uint\<close> an
  unsigned one.\<close>

type_synonym UInt8 = "8 word"
type_synonym Int8 = "8 word"
type_synonym UInt32 = "32 word"
type_synonym Int32 = "32 word"
type_synonym UInt64 = "64 word"
type_synonym Int64 = "64 word"
type_synonym Position = "64 word"

text \<open>C++ \<open>%\<close> on signed operands truncates towards zero: the remainder has the sign of
  the dividend.\<close>

definition rem_trunc :: "int \<Rightarrow> int \<Rightarrow> int" where
  "rem_trunc a b = sgn a * (\<bar>a\<bar> mod \<bar>b\<bar>)"

section \<open>essence.h: SystemSource::CalcFillerSize\<close>

text \<open>The statements \<open>while(Fill < 20) Fill += KAGSize\<close> and \<open>while(Fill < 17) Fill += KAGSize\<close>
  on \<open>UInt32\<close>: the addition wraps, and a loop that never leaves is \<open>None\<close>.\<close>

partial_function (option) fill_loop :: "UInt32 \<Rightarrow> UInt32 \<Rightarrow> UInt32 \<Rightarrow> UInt32 option" where
  "fill_loop MinFill KAGSize Fill =
     (if Fill < MinFill then fill_loop MinFill KAGSize (Fill + KAGSize) else Some Fill)"

declare fill_loop.simps [code]

text \<open>The result is the filler size paired with a flag that is set when \<open>error(...)\<close>
  was called. \<open>FillPos % KAGSize\<close> is computed on \<open>Int64\<close> (the \<open>UInt32\<close> operand is
  converted) and then cast to \<open>UInt32\<close>.\<close>

definition CalcFillerSize :: "Position \<Rightarrow> UInt32 \<Rightarrow> bool \<Rightarrow> (UInt32 \<times> bool) option" where
  "CalcFillerSize FillPos KAGSize0 ForceBER4 =
     (let KAGSize = (if KAGSize0 = 0 then 1 else KAGSize0);
          Offset = (word_of_int (rem_trunc (sint FillPos) (uint KAGSize)) :: UInt32)
      in if Offset = 0 then Some (0, False)
         else
           (let Fill0 = KAGSize - Offset
            in case (if ForceBER4 then fill_loop 20 KAGSize Fill0
                     else fill_loop 17 KAGSize Fill0) of
                 None \<Rightarrow> None
               | Some Fill \<Rightarrow>
                   if Fill > 0x00ffffff then Some (0x00ffffff, True)
                   else Some (Fill, False)))"

text \<open>The filler size in the words of the specification: \<open>(kag - position mod kag) mod kag\<close>,
  then raised by multiples of \<open>kag\<close> until it is at least the minimum KLV overhead.\<close>

definition spec_filler_size :: "int \<Rightarrow> int \<Rightarrow> int \<Rightarrow> int" where
  "spec_filler_size position kag minfill =
     (let f = (kag - position mod kag) mod kag
      in if minfill \<le> f then f else f + kag * ((minfill - f + kag - 1) div kag))"


text \<open>The second step of that computation alone: \<open>f\<close> raised by multiples of \<open>k\<close> until it
  is at least \<open>m\<close>.\<close>

definition raise_to :: "int \<Rightarrow> int \<Rightarrow> int \<Rightarrow> int" where
  "raise_to f k m = (if m \<le> f then f else f + k * ((m - f + k - 1) div k))"

text \<open>The filler that the function works out before it tests the maximum, on unbounded
  integers: \<open>KAGSize - FillPos % KAGSize\<close> with the remainder of C++, then raised by whole
  KAGs to the minimum.\<close>

definition required_filler :: "int \<Rightarrow> int \<Rightarrow> int \<Rightarrow> int" where
  "required_filler position kag minfill = raise_to (kag - rem_trunc position kag) kag minfill"

section \<open>MPEG2 VES sub-parser: GetCurrentPosition\<close>

record Rational =
  Numerator :: Int32
  Denominator :: Int32

record MPEG2_VES_EssenceSubParser =
  NativeEditRate :: Rational
  SelectedEditRate :: Rational
  PictureNumber :: Position

text \<open>A C++ scalar used as a condition is true when it is not zero.\<close>

definition truthy :: "Int32 \<Rightarrow> bool" where
  "truthy x = (x \<noteq> 0)"

text \<open>The guard of the second \<open>if\<close>:
  \<open>(SelectedEditRate.Denominator == 0) || (NativeEditRate.Denominator || 0)\<close>.\<close>

definition NativeGuard :: "MPEG2_VES_EssenceSubParser \<Rightarrow> bool" where
  "NativeGuard p = (truthy (Denominator (NativeEditRate p)) \<or> truthy 0)"

text \<open>The last three lines of the function compute in \<open>double\<close>; the model stops at
  their integer operands: \<open>Rescaled n d\<close> stands for
  \<open>(Position)floor(double(n) / d + 0.5)\<close> with
  \<open>n = PictureNumber * SelectedEditRate.Numerator * NativeEditRate.Denominator\<close> (on
  \<open>Int64\<close>) and \<open>d = SelectedEditRate.Denominator * NativeEditRate.Numerator\<close> (on
  \<open>Int32\<close>).\<close>

datatype CurrentPosition = Returns Position | Rescaled Int64 Int32

definition GetCurrentPosition :: "MPEG2_VES_EssenceSubParser \<Rightarrow> CurrentPosition" where
  "GetCurrentPosition p =
     (if Numerator (SelectedEditRate p) = Numerator (NativeEditRate p)
         \<and> Denominator (SelectedEditRate p) = Denominator (NativeEditRate p)
      then Returns (PictureNumber p)
      else if Denominator (SelectedEditRate p) = 0 \<or> NativeGuard p then Returns 0
      else Rescaled
             (PictureNumber p * scast (Numerator (SelectedEditRate p))
                * scast (Denominator (NativeEditRate p)))
             (Denominator (SelectedEditRate p) * Numerator (NativeEditRate p)))"

text \<open>The native edit rate as \<open>BuildMPEG2VideoDescriptor\<close> sets it (lines 533 to 548):
  \<open>FrameRate * 1000 / 1001\<close> for a drop-frame rate, \<open>FrameRate / 1\<close> otherwise. The parser
  assigns to the members of \<open>NativeEditRate\<close> nowhere else.\<close>

definition BuildMPEG2VideoDescriptor_NativeEditRate ::
  "bool \<Rightarrow> Int32 \<Rightarrow> MPEG2_VES_EssenceSubParser \<Rightarrow> MPEG2_VES_EssenceSubParser" where
  "BuildMPEG2VideoDescriptor_NativeEditRate DropFrame FrameRate p =
     (if DropFrame
      then p\<lparr>NativeEditRate := \<lparr>Numerator = FrameRate * 1000, Denominator = 1001\<rparr>\<rparr>
      else p\<lparr>NativeEditRate := \<lparr>Numerator = FrameRate, Denominator = 1\<rparr>\<rparr>)"

section \<open>Byte access\<close>

text \<open>Modelled from the spec: \<open>GetU32\<close>, \<open>GetU64\<close>, \<open>PutU32\<close> and \<open>PutU64\<close> of
  \<open>endian.h\<close>, which is not among the sources. They read and write big-endian values, as
  the specification's index entry layout says (\<open>u64 BE\<close>, \<open>i64 BE\<close>, \<open>u32 BE\<close>);
  \<open>GetI32\<close>, \<open>GetI64\<close> and \<open>PutI32\<close> move the same bits.\<close>

definition be_word :: "UInt8 list \<Rightarrow> 'a::len word" where
  "be_word bs = foldl (\<lambda>acc b. push_bit 8 acc OR ucast b) 0 bs"

definition GetU32 :: "UInt8 list \<Rightarrow> UInt32" where
  "GetU32 bs = be_word (take 4 bs)"

definition GetU64 :: "UInt8 list \<Rightarrow> UInt64" where
  "GetU64 bs = be_word (take 8 bs)"

definition PutU32 :: "UInt32 \<Rightarrow> UInt8 list" where
  "PutU32 x = [ucast (drop_bit 24 x), ucast (drop_bit 16 x), ucast (drop_bit 8 x), ucast x]"

definition PutU64 :: "UInt64 \<Rightarrow> UInt8 list" where
  "PutU64 x = [ucast (drop_bit 56 x), ucast (drop_bit 48 x), ucast (drop_bit 40 x),
               ucast (drop_bit 32 x), ucast (drop_bit 24 x), ucast (drop_bit 16 x),
               ucast (drop_bit 8 x), ucast x]"

text \<open>A read of \<open>n\<close> bytes at \<open>&Data[off]\<close> and a write of \<open>bs\<close> there. Outside the
  array the C++ behaviour is undefined: the model answers \<open>None\<close>.\<close>

definition bytes_at :: "UInt8 list \<Rightarrow> int \<Rightarrow> nat \<Rightarrow> UInt8 list option" where
  "bytes_at Data off n =
     (if 0 \<le> off \<and> nat off + n \<le> length Data then Some (take n (drop (nat off) Data))
      else None)"

definition write_bytes :: "UInt8 list \<Rightarrow> int \<Rightarrow> UInt8 list \<Rightarrow> UInt8 list option" where
  "write_bytes Data off bs =
     (if 0 \<le> off \<and> nat off + length bs \<le> length Data
      then Some (take (nat off) Data @ bs @ drop (nat off + length bs) Data)
      else None)"

text \<open>An element of a C array indexed by an \<open>int\<close>.\<close>

definition elem_at :: "'a list \<Rightarrow> int \<Rightarrow> 'a option" where
  "elem_at xs i = (if 0 \<le> i \<and> nat i < length xs then Some (xs ! nat i) else None)"

text \<open>Arithmetic on a C++ \<open>int\<close>, wrapped to 32 bits.\<close>

definition int32 :: "int \<Rightarrow> int" where
  "int32 x = sint (word_of_int x :: 32 word)"

section \<open>index.cpp: the index table\<close>

text \<open>Modelled from the spec: the declarations of \<open>DeltaEntry\<close>, \<open>IndexSegment\<close> and
  \<open>IndexTable\<close> in \<open>index.h\<close>, which is not among the sources; the members are those that
  \<open>index.cpp\<close> uses and the specification's index segment carries (start position, entry
  count, slice count NSL, PosTable count NPE, a DeltaEntry array and, for VBR, an
  IndexEntry array of \<open>11 + 4 NSL + 8 NPE\<close> bytes for each entry). \<open>ElementDelta\<close> is the
  four-byte array that \<open>GetU32\<close> reads; a delta array is allocated with as many entries
  as its count says. The \<open>int\<close> counters are integers.\<close>

record DeltaEntry =
  PosTableIndex :: Int8
  Slice :: UInt8
  ElementDelta :: "UInt8 list"

record IndexSegment =
  StartPosition :: Position
  EntryCount :: int
  DeltaCount :: int
  DeltaArray :: "DeltaEntry list"
  IndexEntryArray :: "UInt8 list"

text \<open>\<open>IndexSegmentMap\<close> is a \<open>std::map<Position, IndexSegmentPtr>\<close>: here the list of its
  pairs in key order. An iterator is a position in the list, \<open>end()\<close> the length.\<close>

type_synonym IndexSegmentMap = "(Position \<times> IndexSegment) list"

record IndexTable =
  IndexSID :: UInt32
  BodySID :: UInt32
  EditRate :: Rational
  IndexDuration :: Int64
  PreCharge :: Position
  EditUnitByteCount :: UInt32
  BaseDeltaCount :: int
  BaseDeltaArray :: "DeltaEntry list"
  SegmentMap :: IndexSegmentMap
  NSL :: int
  NPE :: int
  IndexEntrySize :: int

fun map_find :: "IndexSegmentMap \<Rightarrow> Position \<Rightarrow> nat" where
  "map_find [] k = 0"
| "map_find ((k', v) # m) k = (if k' = k then 0 else Suc (map_find m k))"

fun lower_bound :: "IndexSegmentMap \<Rightarrow> Position \<Rightarrow> nat" where
  "lower_bound [] k = 0"
| "lower_bound ((k', v) # m) k = (if sint k' < sint k then Suc (lower_bound m k) else 0)"

fun map_insert :: "IndexSegmentMap \<Rightarrow> Position \<Rightarrow> IndexSegment \<Rightarrow> IndexSegmentMap" where
  "map_insert [] k v = [(k, v)]"
| "map_insert ((k', v') # m) k v =
     (if sint k' < sint k then (k', v') # map_insert m k v
      else if k' = k then (k', v') # m
      else (k, v) # (k', v') # m)"

text \<open>The search that \<open>GetSegment\<close>, \<open>Lookup\<close>, \<open>Correct\<close> and \<open>Update\<close> each start with:
  the segment starting with this edit unit, or the nearest before it, or \<open>end()\<close>.\<close>

definition find_or_before :: "IndexSegmentMap \<Rightarrow> Position \<Rightarrow> nat" where
  "find_or_before m EditUnit =
     (let it = map_find m EditUnit
      in if it = length m
         then (let it = lower_bound m EditUnit
               in if it \<noteq> 0 then it - 1 else length m)
         else it)"

text \<open>Modelled from the spec: the constructor \<open>IndexSegment()\<close> of \<open>index.h\<close>, which is not
  among the sources. It gives "a new empty" segment: no entries, no delta array.\<close>

definition new_IndexSegment :: IndexSegment where
  "new_IndexSegment =
     \<lparr>StartPosition = 0, EntryCount = 0, DeltaCount = 0, DeltaArray = [],
      IndexEntryArray = []\<rparr>"

text \<open>\<open>IndexSegment::AddIndexSegmentToIndexTable\<close>; the \<open>memcpy\<close> copies \<open>BaseDeltaCount\<close>
  entries of the table's delta array.\<close>

definition AddIndexSegmentToIndexTable :: "IndexTable \<Rightarrow> Int64 \<Rightarrow> IndexSegment" where
  "AddIndexSegmentToIndexTable ParentTable IndexStartPosition =
     (let Segment = new_IndexSegment\<lparr>StartPosition := IndexStartPosition,
                                      DeltaCount := BaseDeltaCount ParentTable\<rparr>
      in if BaseDeltaCount ParentTable \<noteq> 0
         then Segment\<lparr>DeltaArray :=
                        take (nat (BaseDeltaCount ParentTable)) (BaseDeltaArray ParentTable)\<rparr>
         else Segment)"

text \<open>\<open>IndexTable::AddSegment(Int64)\<close>: the segment and the table after the call.\<close>

definition AddSegment :: "IndexTable \<Rightarrow> Int64 \<Rightarrow> IndexSegment \<times> IndexTable" where
  "AddSegment T StartPos =
     (let it = map_find (SegmentMap T) StartPos
      in if it \<noteq> length (SegmentMap T) then (snd (SegmentMap T ! it), T)
         else (let Segment = AddIndexSegmentToIndexTable T StartPos
               in (Segment, T\<lparr>SegmentMap := map_insert (SegmentMap T) StartPos Segment\<rparr>)))"

text \<open>\<open>IndexTable::GetSegment\<close>.\<close>

definition GetSegment :: "IndexTable \<Rightarrow> Position \<Rightarrow> IndexSegment \<times> IndexTable" where
  "GetSegment T EditUnit =
     (let m = SegmentMap T;
          it = (let it = map_find m EditUnit
                in if it = length m
                   then (let it = lower_bound m EditUnit
                         in if it \<noteq> 0 then it - 1 else length m)
                   else it)
      in if it = length m \<or> sint EditUnit < sint (fst (m ! it)) then AddSegment T EditUnit
         else if sint (StartPosition (snd (m ! it)) + word_of_int (EntryCount (snd (m ! it))))
                   < sint EditUnit
         then AddSegment T EditUnit
         else (snd (m ! it), T))"


subsection \<open>IndexTable::Lookup\<close>

text \<open>Modelled from the spec: the structure \<open>IndexPos\<close> of \<open>index.h\<close>, which is not among
  the sources, with the members that \<open>Lookup\<close> assigns.\<close>

record IndexPos =
  ThisPos :: Position
  Location :: Position
  PosOffset :: Rational
  Exact :: bool
  OtherPos :: bool
  Offset :: bool
  KeyFrameOffset :: Int8
  TemporalOffset :: Int8
  KeyLocation :: Position
  Flags :: UInt8

text \<open>Modelled from the spec: what \<open>new IndexPos\<close> holds. Every member but \<open>PosOffset\<close> is
  assigned before \<open>Lookup\<close> returns.\<close>

definition new_IndexPos :: IndexPos where
  "new_IndexPos =
     \<lparr>ThisPos = 0, Location = 0, PosOffset = \<lparr>Numerator = 0, Denominator = 0\<rparr>,
      Exact = False, OtherPos = False, Offset = False, KeyFrameOffset = 0,
      TemporalOffset = 0, KeyLocation = 0, Flags = 0\<rparr>"

text \<open>The CBR branch (lines 139 to 181).\<close>

definition Lookup_CBR :: "IndexTable \<Rightarrow> Position \<Rightarrow> int \<Rightarrow> IndexPos option" where
  "Lookup_CBR T EditUnit SubItem =
     (let Loc = EditUnit * ucast (EditUnitByteCount T);
          done = (\<lambda>ex Loc.
             Some (new_IndexPos\<lparr>Exact := ex, OtherPos := False, ThisPos := EditUnit,
                     Location := Loc, Offset := False, KeyFrameOffset := 0,
                     TemporalOffset := 0, KeyLocation := Loc, Flags := 0\<rparr>))
      in if SubItem = 0 then done True Loc
         else if BaseDeltaCount T \<le> SubItem then done False Loc
         else (case elem_at (BaseDeltaArray T) SubItem of
                 None \<Rightarrow> None
               | Some d \<Rightarrow>
                   if Slice d \<noteq> 0 then done False Loc
                   else done True (Loc + ucast (GetU32 (ElementDelta d)))))"

text \<open>The result for a position before the start of the table, and for a segment without
  entries (lines 203 to 237).\<close>

definition Lookup_start :: IndexPos where
  "Lookup_start =
     new_IndexPos\<lparr>ThisPos := 0, Location := 0, Exact := False, Offset := False,
                  OtherPos := False, KeyFrameOffset := 0, TemporalOffset := 0,
                  KeyLocation := 0, Flags := 0\<rparr>"

text \<open>The nearest lower index point, when the edit unit is beyond the segment
  (lines 240 to 263).\<close>

definition Lookup_last :: "IndexTable \<Rightarrow> IndexSegment \<Rightarrow> IndexPos option" where
  "Lookup_last T Segment =
     (case bytes_at (IndexEntryArray Segment)
             ((EntryCount Segment - 1) * IndexEntrySize T + 3) 8 of
        None \<Rightarrow> None
      | Some bs \<Rightarrow>
          Some (new_IndexPos
            \<lparr>ThisPos := StartPosition Segment + word_of_int (EntryCount Segment) - 1,
             Location := GetU64 bs, Exact := False, OtherPos := True, Offset := False,
             KeyFrameOffset := 0, TemporalOffset := 0, KeyLocation := GetU64 bs,
             Flags := 0\<rparr>))"

text \<open>The condition of lines 273 and 284,
  \<open>DeltaCount == 0 || (SubItem < DeltaCount) && (DeltaArray[SubItem].PosTableIndex < 0)\<close>,
  with its left-to-right evaluation.\<close>

definition reordered_item :: "IndexSegment \<Rightarrow> int \<Rightarrow> bool option" where
  "reordered_item Segment SubItem =
     (if DeltaCount Segment = 0 then Some True
      else if SubItem < DeltaCount Segment
      then (case elem_at (DeltaArray Segment) SubItem of
              None \<Rightarrow> None
            | Some d \<Rightarrow> Some (sint (PosTableIndex d) < 0))
      else Some False)"

text \<open>Lines 280 to 361: the entry of this edit unit, starting at \<open>Ptr\<close> in the entry
  array, once its temporal offset has been read.\<close>

definition Lookup_entry ::
  "IndexTable \<Rightarrow> IndexSegment \<Rightarrow> Position \<Rightarrow> int \<Rightarrow> int \<Rightarrow> Int8 \<Rightarrow> IndexPos option" where
  "Lookup_entry T Segment EditUnit SubItem Ptr TempOffset =
     (let Data = IndexEntryArray Segment in
      case reordered_item Segment SubItem of None \<Rightarrow> None | Some re \<Rightarrow>
      case bytes_at Data (Ptr + 1) 1 of None \<Rightarrow> None | Some kfo \<Rightarrow>
      case bytes_at Data (Ptr + 2) 1 of None \<Rightarrow> None | Some fl \<Rightarrow>
      let Ret = new_IndexPos\<lparr>ThisPos := EditUnit,
                  TemporalOffset := (if re then TempOffset else 0),
                  KeyFrameOffset := hd kfo, Flags := hd fl\<rparr> in
      case (if hd fl AND 4 \<noteq> 0
               \<or> sint (EditUnit - StartPosition Segment) < - sint (hd kfo)
            then Some (- 1)
            else map_option GetU64
                   (bytes_at Data
                      (sint ((EditUnit - StartPosition Segment - word_of_int (- sint (hd kfo)))
                               * word_of_int (IndexEntrySize T)) + 3) 8))
      of None \<Rightarrow> None | Some kl \<Rightarrow>
      case bytes_at Data (Ptr + 3) 8 of None \<Rightarrow> None | Some loc \<Rightarrow>
      let Ret = Ret\<lparr>KeyLocation := kl, Location := GetU64 loc\<rparr>;
          Ptr = Ptr + 11 in
      if DeltaCount Segment \<le> SubItem
      then Some (Ret\<lparr>Exact := False, OtherPos := False, Offset := False\<rparr>)
      else
      let Ret = Ret\<lparr>Exact := True, OtherPos := False\<rparr> in
      case (if 0 < SubItem
            then (case elem_at (DeltaArray Segment) SubItem of None \<Rightarrow> None | Some d \<Rightarrow>
                  case (if Slice d \<noteq> 0
                        then map_option (\<lambda>bs. Location Ret + ucast (GetU32 bs))
                               (bytes_at Data (Ptr + (uint (Slice d) - 1) * 4) 4)
                        else Some (Location Ret))
                  of None \<Rightarrow> None
                   | Some l \<Rightarrow> Some (Ret\<lparr>Location := l + ucast (GetU32 (ElementDelta d))\<rparr>))
            else Some Ret)
      of None \<Rightarrow> None | Some Ret \<Rightarrow>
      case (if 0 < DeltaCount Segment
            then map_option (\<lambda>d. sint (PosTableIndex d)) (elem_at (DeltaArray Segment) SubItem)
            else Some 0)
      of None \<Rightarrow> None | Some PosTabIndex \<Rightarrow>
      if 0 < PosTabIndex
      then (case bytes_at Data (Ptr + NSL T * 4 + (PosTabIndex - 1) * 8) 8 of
              None \<Rightarrow> None
            | Some bs \<Rightarrow>
                Some (Ret\<lparr>PosOffset := \<lparr>Numerator = GetU32 bs, Denominator = GetU32 (drop 4 bs)\<rparr>,
                          Offset := True\<rparr>))
      else Some (Ret\<lparr>Offset := False\<rparr>))"


text \<open>Lines 183 to 266 of \<open>Lookup\<close>: where the edit unit is in a VBR table. Before the
  start of the table, in a segment without entries, beyond the last entry of the nearest
  segment before it, or at the entry that starts at \<open>Ptr\<close> in the segment's entry array.\<close>

datatype Located =
    BeforeStart
  | NoEntries
  | BeyondLast IndexSegment
  | AtEntry IndexSegment int

definition locate :: "IndexTable \<Rightarrow> Position \<Rightarrow> Located" where
  "locate T EditUnit =
     (let m = SegmentMap T;
          it = (let it = map_find m EditUnit
                in if it = length m
                   then (if m \<noteq> []
                         then (let it = lower_bound m EditUnit
                               in if it \<noteq> 0 then it - 1 else length m)
                         else it)
                   else it)
      in if it = length m \<or> sint EditUnit < sint (fst (m ! it)) then BeforeStart
         else
           let Segment = snd (m ! it)
           in if EntryCount Segment = 0 then NoEntries
              else if sint (StartPosition Segment + word_of_int (EntryCount Segment) - 1)
                        < sint EditUnit
              then BeyondLast Segment
              else AtEntry Segment
                     (sint ((EditUnit - StartPosition Segment)
                              * word_of_int (IndexEntrySize T))))"

text \<open>\<open>IndexTable::Lookup\<close>. The call of line 275 is the only recursion, and it passes
  \<open>Reorder = false\<close>.\<close>

function Lookup :: "IndexTable \<Rightarrow> Position \<Rightarrow> int \<Rightarrow> bool \<Rightarrow> IndexPos option" where
  "Lookup T EditUnit SubItem Reorder =
     (if EditUnitByteCount T \<noteq> 0 then Lookup_CBR T EditUnit SubItem
      else
        case locate T EditUnit of
          BeforeStart \<Rightarrow> Some Lookup_start
        | NoEntries \<Rightarrow> Some Lookup_start
        | BeyondLast Segment \<Rightarrow> Lookup_last T Segment
        | AtEntry Segment Ptr \<Rightarrow>
            (case bytes_at (IndexEntryArray Segment) Ptr 1 of
               None \<Rightarrow> None
             | Some t \<Rightarrow>
                 (case (if Reorder \<and> hd t \<noteq> 0 then reordered_item Segment SubItem
                        else Some False) of
                    None \<Rightarrow> None
                  | Some re \<Rightarrow>
                      if Reorder \<and> hd t \<noteq> 0 \<and> re
                      then map_option (\<lambda>Ret. Ret\<lparr>TemporalOffset := hd t\<rparr>)
                             (Lookup T (EditUnit + scast (hd t)) SubItem False)
                      else Lookup_entry T Segment EditUnit SubItem Ptr (hd t))))"
  by pat_completeness auto

termination
  by (relation "measure (\<lambda>(T, EditUnit, SubItem, Reorder). if Reorder then 1 else 0)") auto

declare Lookup.simps [simp del]

subsection \<open>IndexTable::Update and IndexSegment::Update\<close>

text \<open>\<open>IndexSegment::Update\<close>; \<open>Parent->IndexEntrySize\<close> is an argument.\<close>

definition IndexSegment_Update ::
  "int \<Rightarrow> IndexSegment \<Rightarrow> Position \<Rightarrow> UInt64 \<Rightarrow> IndexSegment option" where
  "IndexSegment_Update ParentIndexEntrySize Segment EditUnit StreamOffset =
     (if sint EditUnit < sint (StartPosition Segment) then Some Segment
      else if sint (StartPosition Segment + word_of_int (EntryCount Segment) - 1) < sint EditUnit
      then Some Segment
      else
        let Ptr = sint ((EditUnit - StartPosition Segment) * word_of_int ParentIndexEntrySize);
            Ptr = Ptr + 3
        in map_option (\<lambda>Data. Segment\<lparr>IndexEntryArray := Data\<rparr>)
             (write_bytes (IndexEntryArray Segment) Ptr (PutU64 StreamOffset)))"

definition Update :: "IndexTable \<Rightarrow> Position \<Rightarrow> UInt64 \<Rightarrow> IndexTable option" where
  "Update T EditUnit StreamOffset =
     (let m = SegmentMap T;
          it = (let it = map_find m EditUnit
                in if it = length m
                   then (if m \<noteq> []
                         then (let it = lower_bound m EditUnit
                               in if it \<noteq> 0 then it - 1 else length m)
                         else it)
                   else it)
      in if it = length m \<or> sint EditUnit < sint (fst (m ! it)) then Some T
         else map_option (\<lambda>Segment. T\<lparr>SegmentMap := m[it := (fst (m ! it), Segment)]\<rparr>)
                (IndexSegment_Update (IndexEntrySize T) (snd (m ! it)) EditUnit StreamOffset))"


subsection \<open>IndexSegment::AddIndexEntry\<close>

text \<open>The loop over \<open>SliceOffsets\<close> (lines 928 to 933): \<open>n\<close> iterations are left, the
  list is what \<open>SlicePtr\<close> points at, \<open>Ptr\<close> is the offset in \<open>Buffer\<close>.\<close>

fun put_slices :: "nat \<Rightarrow> UInt32 list \<Rightarrow> int \<Rightarrow> UInt8 list \<Rightarrow> (int \<times> UInt8 list) option" where
  "put_slices 0 SlicePtr Ptr Buffer = Some (Ptr, Buffer)"
| "put_slices (Suc n) [] Ptr Buffer = None"
| "put_slices (Suc n) (x # SlicePtr) Ptr Buffer =
     (case write_bytes Buffer Ptr (PutU32 x) of
        None \<Rightarrow> None
      | Some Buffer \<Rightarrow> put_slices n SlicePtr (Ptr + 4) Buffer)"

text \<open>The loop over \<open>PosTable\<close> (lines 936 to 942). Both \<open>PutI32\<close> calls write at \<open>Ptr\<close>,
  which then moves on by 8.\<close>

fun put_pos :: "nat \<Rightarrow> Rational list \<Rightarrow> int \<Rightarrow> UInt8 list \<Rightarrow> (int \<times> UInt8 list) option" where
  "put_pos 0 PosPtr Ptr Buffer = Some (Ptr, Buffer)"
| "put_pos (Suc n) [] Ptr Buffer = None"
| "put_pos (Suc n) (r # PosPtr) Ptr Buffer =
     (case write_bytes Buffer Ptr (PutU32 (Numerator r)) of
        None \<Rightarrow> None
      | Some Buffer \<Rightarrow>
          (case write_bytes Buffer Ptr (PutU32 (Denominator r)) of
             None \<Rightarrow> None
           | Some Buffer \<Rightarrow> put_pos n PosPtr (Ptr + 8) Buffer))"

text \<open>Modelled from the spec: \<open>DataChunk::Set(size, data, start)\<close> of \<open>datachunk.h\<close>, which
  is not among the sources, called with \<open>start\<close> the current size of the chunk. It appends
  the \<open>size\<close> bytes: the entries of a segment are "dense and contiguous", and the byte
  length of the entry array is the entry count times the entry size.\<close>

definition DataChunk_Set_at_end :: "UInt8 list \<Rightarrow> nat \<Rightarrow> UInt8 list \<Rightarrow> UInt8 list" where
  "DataChunk_Set_at_end Chunk MemSize Buffer = Chunk @ take MemSize Buffer"

text \<open>\<open>IndexSegment::AddIndexEntry\<close>. \<open>Parent\<close> is the table of the segment; \<open>Fresh\<close> is
  what the memory returned by \<open>new UInt8[...]\<close> holds before it is written.\<close>

definition AddIndexEntry ::
  "IndexTable \<Rightarrow> (nat \<Rightarrow> UInt8) \<Rightarrow> IndexSegment \<Rightarrow> Int8 \<Rightarrow> Int8 \<Rightarrow> UInt8 \<Rightarrow> UInt64
     \<Rightarrow> int \<Rightarrow> UInt32 list \<Rightarrow> int \<Rightarrow> Rational list \<Rightarrow> (bool \<times> IndexSegment) option" where
  "AddIndexEntry Parent Fresh Segment TempOffset KeyFrameOff Flgs StreamOffset
       SliceCount SliceOffsets PosCount PosTable =
     (if SliceCount \<noteq> NSL Parent then Some (False, Segment)
      else if PosCount \<noteq> NPE Parent then Some (False, Segment)
      else
        let NewSize = int32 (int32 (int32 (EntryCount Segment + 1) * IndexEntrySize Parent) + 8)
        in if 0xffff < NewSize then Some (False, Segment)
           else
             let Buffer = map Fresh [0..<nat (IndexEntrySize Parent)]
             in case write_bytes Buffer 0
                       ([TempOffset, KeyFrameOff, Flgs] @ PutU64 StreamOffset) of
                  None \<Rightarrow> None
                | Some Buffer \<Rightarrow>
                    (case put_slices (nat SliceCount) SliceOffsets 11 Buffer of
                       None \<Rightarrow> None
                     | Some (Ptr, Buffer) \<Rightarrow>
                         (case put_pos (nat PosCount) PosTable Ptr Buffer of
                            None \<Rightarrow> None
                          | Some (Ptr, Buffer) \<Rightarrow>
                              Some (True,
                                Segment\<lparr>IndexEntryArray :=
                                          DataChunk_Set_at_end (IndexEntryArray Segment)
                                            (nat (IndexEntrySize Parent)) Buffer,
                                        EntryCount := int32 (EntryCount Segment + 1)\<rparr>))))"




section \<open>index.cpp: the index manager\<close>

text \<open>Modelled from the spec: \<open>struct IndexData\<close> of \<open>index.h\<close>, which is not among the
  sources, with the members that \<open>index.cpp\<close> uses: the per-edit-unit observations of the
  index manager and its status bitmask (bit 0 "have offset", bit 1 "have temporal
  offset"). \<open>StreamOffset\<close> is the array at the end of the structure, one \<open>UInt64\<close> for each
  stream that the allocated \<open>ManagedDataEntrySize\<close> bytes have room for.\<close>

record IndexData =
  Status :: int
  Flags :: int
  KeyOffset :: int
  TemporalOffset :: int
  TemporalDiff :: int
  StreamOffset :: "UInt64 list"

text \<open>Modelled from the spec: \<open>sizeof(IndexData)\<close>, five \<open>int\<close> members and one
  \<open>UInt64\<close>, aligned to 8 bytes.\<close>

definition sizeof_IndexData :: int where
  "sizeof_IndexData = 32"

text \<open>Modelled from the spec: the class \<open>IndexManager\<close> of \<open>index.h\<close>, which is not among
  the sources, with the members that \<open>index.cpp\<close> uses.
  \<open>PosTableList\<close> and \<open>ElementSizeList\<close> are arrays of \<open>StreamListSize\<close> cells,
  modelled by the content of each cell. The three \<open>std::map\<close>s are only searched by key,
  inserted into and erased from: they are partial functions.\<close>

record IndexManager =
  FormatFixed :: bool
  UsesReordering :: bool
  DataIsCBR :: bool
  StreamListSize :: int
  PosTableList :: "nat \<Rightarrow> int"
  ElementSizeList :: "nat \<Rightarrow> UInt32"
  StreamCount :: int
  ManagedDataEntrySize :: int
  MasterStream :: int
  PreCharge :: Position
  BodySID :: UInt32
  IndexSID :: UInt32
  EditRate :: Rational
  LastNewEditUnit :: Position
  ProvisionalEntry :: "IndexData option"
  ProvisionalEditUnit :: Position
  ManagedData :: "Position \<rightharpoonup> IndexData"
  UnsatisfiedTemporalOffsets :: "Position \<rightharpoonup> int"
  UnsatisfiedTemporalDiffs :: "Position \<rightharpoonup> int"
  NextLogID :: int
  LogWrapped :: bool
  LogNextEntry :: int
  EntryLog :: "int \<rightharpoonup> Position"
  AcceptNextEntry :: bool
  ValueRelativeIndexing :: bool
  SubRangeOffset :: Position
  IndexDuration :: Int64

text \<open>\<open>std::map::insert\<close> leaves the map as it is when the key is there already.\<close>

definition std_insert :: "('k \<rightharpoonup> 'v) \<Rightarrow> 'k \<Rightarrow> 'v \<Rightarrow> ('k \<rightharpoonup> 'v)" where
  "std_insert M k v = (case M k of None \<Rightarrow> M(k \<mapsto> v) | Some old \<Rightarrow> M)"

text \<open>The constructor \<open>IndexManager(PosTableIndex, ElementSize)\<close>. The two arrays come
  from \<open>new\<close> and \<open>ProvisionalEditUnit\<close> is not initialised: what they hold is an
  argument.\<close>

definition IndexManager_new ::
  "(nat \<Rightarrow> int) \<Rightarrow> (nat \<Rightarrow> UInt32) \<Rightarrow> Position \<Rightarrow> int \<Rightarrow> UInt32 \<Rightarrow> IndexManager" where
  "IndexManager_new FreshPos FreshSize FreshUnit PosTabIndex ElementSize =
     \<lparr>FormatFixed = False,
      UsesReordering = (PosTabIndex < 0),
      DataIsCBR = (0 < ElementSize),
      StreamListSize = 16,
      PosTableList = FreshPos(0 := PosTabIndex),
      ElementSizeList = FreshSize(0 := ElementSize),
      StreamCount = 1,
      ManagedDataEntrySize = sizeof_IndexData,
      MasterStream = 0,
      PreCharge = 0,
      BodySID = 0,
      IndexSID = 0,
      EditRate = \<lparr>Numerator = 1, Denominator = 1\<rparr>,
      LastNewEditUnit = 0 - 0x7fffffffffffffff,
      ProvisionalEntry = None,
      ProvisionalEditUnit = FreshUnit,
      ManagedData = Map.empty,
      UnsatisfiedTemporalOffsets = Map.empty,
      UnsatisfiedTemporalDiffs = Map.empty,
      NextLogID = 0,
      LogWrapped = False,
      LogNextEntry = - 1,
      EntryLog = Map.empty,
      AcceptNextEntry = False,
      ValueRelativeIndexing = False,
      SubRangeOffset = 0,
      IndexDuration = 0\<rparr>"

text \<open>\<open>IndexManager::AddSubStream\<close>: the stream ID and the manager after the call. A
  store outside the arrays is \<open>None\<close>.\<close>

definition AddSubStream :: "int \<Rightarrow> UInt32 \<Rightarrow> IndexManager \<Rightarrow> (int \<times> IndexManager) option" where
  "AddSubStream PosTabIndex ElementSize M =
     (if FormatFixed M then Some (0, M)
      else
        let M = (if PosTabIndex < 0 then M\<lparr>UsesReordering := True\<rparr> else M);
            M = (if ElementSize = 0 then M\<lparr>DataIsCBR := False\<rparr> else M);
            M = (if StreamCount M = StreamListSize M
                 then M\<lparr>StreamListSize := int32 (StreamListSize M + 16)\<rparr> else M)
        in if 0 \<le> StreamCount M \<and> StreamCount M < StreamListSize M
           then Some (StreamCount M,
                  M\<lparr>PosTableList := (PosTableList M)(nat (StreamCount M) := PosTabIndex),
                    ElementSizeList := (ElementSizeList M)(nat (StreamCount M) := ElementSize),
                    ManagedDataEntrySize := sizeof_IndexData + StreamCount M * 8,
                    StreamCount := int32 (StreamCount M + 1)\<rparr>)
           else None)"

text \<open>Modelled from the spec: \<open>IndexManager::Log\<close>, defined in \<open>index.h\<close>, which is not
  among the sources; when the next
  entry is to be logged (\<open>log_next\<close>) it records the edit unit under the pending log ID.\<close>

definition Log :: "Position \<Rightarrow> IndexManager \<Rightarrow> IndexManager" where
  "Log EditUnit M =
     (if 0 \<le> LogNextEntry M
      then M\<lparr>EntryLog := (EntryLog M)(LogNextEntry M \<mapsto> EditUnit), LogNextEntry := - 1\<rparr>
      else M)"

text \<open>A new entry: \<open>new UInt8[ManagedDataEntrySize]\<close>, then \<open>memset\<close> to zero.\<close>

definition new_IndexData :: "IndexManager \<Rightarrow> IndexData" where
  "new_IndexData M =
     \<lparr>Status = 0, Flags = 0, KeyOffset = 0, TemporalOffset = 0, TemporalDiff = 0,
      StreamOffset = replicate (nat ((ManagedDataEntrySize M - sizeof_IndexData) div 8 + 1)) 0\<rparr>"

text \<open>The test \<open>(ProvisionalEntry) && (EditUnit == ProvisionalEditUnit)\<close>: the
  provisional entry when it is the one of this edit unit.\<close>

definition provisional_at :: "IndexManager \<Rightarrow> Position \<Rightarrow> IndexData option" where
  "provisional_at M EditUnit =
     (case ProvisionalEntry M of
        None \<Rightarrow> None
      | Some pe \<Rightarrow> if EditUnit = ProvisionalEditUnit M then Some pe else None)"

text \<open>Lines 1643 to 1699 of \<open>AddEditUnit\<close>, which lines 1733 to 1789 of \<open>SetOffset\<close>
  repeat: re-use the provisional entry, or locate the entry of the edit unit, or create
  it. The result is \<open>ThisEntry\<close>, whether that object is the one the map holds for the edit
  unit (\<open>insert\<close> does not replace an entry), and the manager.\<close>

definition ThisEntry_for :: "Position \<Rightarrow> IndexManager \<Rightarrow> IndexData \<times> bool \<times> IndexManager" where
  "ThisEntry_for EditUnit M =
     (let reuse = provisional_at M EditUnit;
          M = M\<lparr>ProvisionalEntry := None\<rparr>
      in case reuse of
           Some pe \<Rightarrow>
             (pe, ManagedData M EditUnit = None,
              M\<lparr>ManagedData := std_insert (ManagedData M) EditUnit pe,
                LastNewEditUnit := EditUnit\<rparr>)
         | None \<Rightarrow>
             (case ManagedData M EditUnit of
                Some e \<Rightarrow> (e, True, M)
              | None \<Rightarrow>
                  let e = new_IndexData M;
                      (e, M) = (case UnsatisfiedTemporalOffsets M EditUnit of
                                  None \<Rightarrow> (e, M)
                                | Some off \<Rightarrow>
                                    (e\<lparr>TemporalOffset := off\<rparr>,
                                     M\<lparr>UnsatisfiedTemporalOffsets :=
                                          (UnsatisfiedTemporalOffsets M)(EditUnit := None)\<rparr>));
                      (e, M) = (case UnsatisfiedTemporalDiffs M EditUnit of
                                  None \<Rightarrow> (e, M)
                                | Some d \<Rightarrow>
                                    (e\<lparr>TemporalDiff := d\<rparr>,
                                     M\<lparr>UnsatisfiedTemporalDiffs :=
                                          (UnsatisfiedTemporalDiffs M)(EditUnit := None)\<rparr>))
                  in (e, True,
                      M\<lparr>ManagedData := std_insert (ManagedData M) EditUnit e,
                        LastNewEditUnit := EditUnit\<rparr>)))"

text \<open>The assignments to an entry through the pointer \<open>ThisEntry\<close> reach the managed data
  when the map holds that object.\<close>

definition store_entry :: "Position \<Rightarrow> bool \<Rightarrow> IndexData \<Rightarrow> IndexManager \<Rightarrow> IndexManager" where
  "store_entry EditUnit held e M =
     (if held then M\<lparr>ManagedData := (ManagedData M)(EditUnit \<mapsto> e)\<rparr> else M)"

text \<open>Lines 1702 to 1706 and 1796 to 1800: only the master stream sets the per-entry
  values.\<close>

definition set_per_entry :: "IndexManager \<Rightarrow> int \<Rightarrow> int \<Rightarrow> int \<Rightarrow> IndexData \<Rightarrow> IndexData" where
  "set_per_entry M SubStream KeyOff Flgs e =
     (if SubStream = MasterStream M
      then (let e = (if KeyOff \<noteq> 0 then e\<lparr>KeyOffset := KeyOff\<rparr> else e)
            in if Flgs \<noteq> - 1 then e\<lparr>IndexData.Flags := Flgs\<rparr> else e)
      else e)"

definition AddEditUnit :: "int \<Rightarrow> Position \<Rightarrow> int \<Rightarrow> int \<Rightarrow> IndexManager \<Rightarrow> IndexManager" where
  "AddEditUnit SubStream EditUnit0 KeyOff Flgs M =
     (if DataIsCBR M then M
      else
        let EditUnit = EditUnit0 - SubRangeOffset M;
            M = M\<lparr>FormatFixed := True\<rparr>;
            (e, held, M) = ThisEntry_for EditUnit M;
            e = set_per_entry M SubStream KeyOff Flgs e
        in Log EditUnit (store_entry EditUnit held e M))"

text \<open>\<open>IndexManager::SetOffset\<close>. The store \<open>ThisEntry->StreamOffset[SubStream] = Offset\<close>
  outside the entry is \<open>None\<close>.\<close>

definition SetOffset ::
  "int \<Rightarrow> Position \<Rightarrow> UInt64 \<Rightarrow> int \<Rightarrow> int \<Rightarrow> IndexManager \<Rightarrow> IndexManager option" where
  "SetOffset SubStream EditUnit Off KeyOff Flgs M =
     (if DataIsCBR M then Some M
      else
        let M = M\<lparr>FormatFixed := True\<rparr>;
            (e, held, M) = ThisEntry_for EditUnit M;
            e = e\<lparr>Status := Status e OR 1\<rparr>
        in if 0 \<le> SubStream \<and> nat SubStream < length (StreamOffset e)
           then
             let e = e\<lparr>StreamOffset := (StreamOffset e)[nat SubStream := Off]\<rparr>;
                 e = set_per_entry M SubStream KeyOff Flgs e
             in Some (Log EditUnit (store_entry EditUnit held e M))
           else None)"

definition OfferEditUnit ::
  "int \<Rightarrow> Position \<Rightarrow> int \<Rightarrow> int \<Rightarrow> IndexManager \<Rightarrow> bool \<times> IndexManager" where
  "OfferEditUnit SubStream EditUnit KeyOff Flgs M =
     (True, AddEditUnit SubStream EditUnit KeyOff Flgs M)"

definition OfferOffset ::
  "int \<Rightarrow> Position \<Rightarrow> UInt64 \<Rightarrow> int \<Rightarrow> int \<Rightarrow> IndexManager \<Rightarrow> (bool \<times> IndexManager) option" where
  "OfferOffset SubStream EditUnit Off KeyOff Flgs M =
     map_option (Pair True) (SetOffset SubStream EditUnit Off KeyOff Flgs M)"


text \<open>\<open>IndexManager::SetTemporalOffset\<close>: first the offset of the edit unit, then the
  reverse offset (\<open>TemporalDiff\<close>) of the edit unit it refers to.\<close>

definition SetTemporalOffset :: "Position \<Rightarrow> int \<Rightarrow> IndexManager \<Rightarrow> IndexManager" where
  "SetTemporalOffset EditUnit0 Off M =
     (if DataIsCBR M then M
      else
        let EditUnit = EditUnit0 - SubRangeOffset M;
            M = (case provisional_at M EditUnit of
                   Some pe \<Rightarrow>
                     M\<lparr>ProvisionalEntry :=
                         Some (pe\<lparr>Status := Status pe OR 2, TemporalOffset := Off\<rparr>)\<rparr>
                 | None \<Rightarrow>
                     (case ManagedData M EditUnit of
                        Some e \<Rightarrow>
                          M\<lparr>ManagedData := (ManagedData M)(EditUnit \<mapsto>
                                e\<lparr>Status := Status e OR 2, TemporalOffset := Off\<rparr>)\<rparr>
                      | None \<Rightarrow>
                          M\<lparr>UnsatisfiedTemporalOffsets :=
                               std_insert (UnsatisfiedTemporalOffsets M) EditUnit Off\<rparr>))
        in case provisional_at M (EditUnit + word_of_int Off) of
             Some pe \<Rightarrow>
               M\<lparr>ProvisionalEntry :=
                   Some (pe\<lparr>Status := Status pe OR 4, TemporalDiff := int32 (- Off)\<rparr>)\<rparr>
           | None \<Rightarrow>
               (case ManagedData M (EditUnit + word_of_int Off) of
                  Some e \<Rightarrow>
                    M\<lparr>ManagedData := (ManagedData M)(EditUnit + word_of_int Off \<mapsto>
                          e\<lparr>Status := Status e OR 4, TemporalDiff := int32 (- Off)\<rparr>)\<rparr>
                | None \<Rightarrow>
                    M\<lparr>UnsatisfiedTemporalDiffs :=
                         std_insert (UnsatisfiedTemporalDiffs M) EditUnit (int32 (- Off))\<rparr>))"

definition OfferTemporalOffset :: "Position \<Rightarrow> int \<Rightarrow> IndexManager \<Rightarrow> bool \<times> IndexManager" where
  "OfferTemporalOffset EditUnit Off M = (True, SetTemporalOffset EditUnit Off M)"

text \<open>\<open>IndexManager::SetKeyOffset\<close> and \<open>IndexManager::SetFlags\<close>; for an unknown edit
  unit they report an error and change nothing.\<close>

definition SetKeyOffset :: "Position \<Rightarrow> int \<Rightarrow> IndexManager \<Rightarrow> IndexManager" where
  "SetKeyOffset EditUnit0 Off M =
     (if DataIsCBR M then M
      else
        let EditUnit = EditUnit0 - SubRangeOffset M
        in case provisional_at M EditUnit of
             Some pe \<Rightarrow> M\<lparr>ProvisionalEntry := Some (pe\<lparr>KeyOffset := Off\<rparr>)\<rparr>
           | None \<Rightarrow>
               (case ManagedData M EditUnit of
                  Some e \<Rightarrow>
                    M\<lparr>ManagedData := (ManagedData M)(EditUnit \<mapsto> e\<lparr>KeyOffset := Off\<rparr>)\<rparr>
                | None \<Rightarrow> M))"

definition SetFlags :: "Position \<Rightarrow> int \<Rightarrow> IndexManager \<Rightarrow> IndexManager" where
  "SetFlags EditUnit0 Flgs M =
     (if DataIsCBR M then M
      else
        let EditUnit = EditUnit0 - SubRangeOffset M
        in case provisional_at M EditUnit of
             Some pe \<Rightarrow> M\<lparr>ProvisionalEntry := Some (pe\<lparr>IndexData.Flags := Flgs\<rparr>)\<rparr>
           | None \<Rightarrow>
               (case ManagedData M EditUnit of
                  Some e \<Rightarrow>
                    M\<lparr>ManagedData :=
                        (ManagedData M)(EditUnit \<mapsto> e\<lparr>IndexData.Flags := Flgs\<rparr>)\<rparr>
                | None \<Rightarrow> M))"

text \<open>\<open>IndexManager::MakeIndex\<close>. The constructor of \<open>IndexTable\<close> and
  \<open>IndexTable::DefineDeltaArray\<close> are in \<open>index.h\<close>, not among the sources: the new table and the
  function are arguments. The loop of lines 2036 to 2039 stores the \<open>PosTableIndex\<close> of
  each stream; outside \<open>BaseDeltaArray\<close> that is \<open>None\<close>.\<close>

definition set_PosTableIndexes :: "nat \<Rightarrow> (nat \<Rightarrow> int) \<Rightarrow> DeltaEntry list \<Rightarrow> DeltaEntry list option" where
  "set_PosTableIndexes n PosTabList A =
     foldl (\<lambda>acc i. case acc of
                      None \<Rightarrow> None
                    | Some A \<Rightarrow>
                        if i < length A
                        then Some (A[i := (A ! i)\<lparr>PosTableIndex := word_of_int (PosTabList i)\<rparr>])
                        else None)
       (Some A) [0..<n]"

definition MakeIndex ::
  "IndexTable \<Rightarrow> (int \<Rightarrow> (nat \<Rightarrow> UInt32) \<Rightarrow> IndexTable \<Rightarrow> IndexTable) \<Rightarrow> IndexManager
     \<Rightarrow> (IndexTable \<times> IndexManager) option" where
  "MakeIndex NewTable DefineDeltaArray M0 =
     (let M = M0\<lparr>FormatFixed := True\<rparr>;
          Ret = NewTable\<lparr>IndexTable.IndexSID := IndexSID M, IndexTable.BodySID := BodySID M,
                         IndexTable.EditRate := EditRate M, IndexTable.PreCharge := PreCharge M\<rparr>;
          Ret = DefineDeltaArray (StreamCount M) (ElementSizeList M) Ret
      in case set_PosTableIndexes (nat (StreamCount M)) (PosTableList M) (BaseDeltaArray Ret) of
           None \<Rightarrow> None
         | Some A \<Rightarrow>
             let Ret = Ret\<lparr>BaseDeltaArray := A\<rparr>;
                 Ret = (if DataIsCBR M
                        then Ret\<lparr>EditUnitByteCount :=
                                   foldl (\<lambda>ByteCount i. ByteCount + ElementSizeList M i) 0
                                     [0..<nat (StreamCount M)],
                                 IndexTable.IndexDuration := IndexDuration M\<rparr>
                        else Ret)
             in Some (Ret, M))"

text \<open>The calls a client can make on a manager, and a sequence of them.\<close>

datatype ManagerCall =
    CallAddSubStream int UInt32
  | CallAddEditUnit int Position int int
  | CallSetOffset int Position UInt64 int int
  | CallSetTemporalOffset Position int
  | CallSetKeyOffset Position int
  | CallSetFlags Position int
  | CallMakeIndex IndexTable "int \<Rightarrow> (nat \<Rightarrow> UInt32) \<Rightarrow> IndexTable \<Rightarrow> IndexTable"

fun call :: "ManagerCall \<Rightarrow> IndexManager \<Rightarrow> IndexManager option" where
  "call (CallAddSubStream p e) M = map_option snd (AddSubStream p e M)"
| "call (CallAddEditUnit s u k f) M = Some (AddEditUnit s u k f M)"
| "call (CallSetOffset s u off k f) M = SetOffset s u off k f M"
| "call (CallSetTemporalOffset u off) M = Some (SetTemporalOffset u off M)"
| "call (CallSetKeyOffset u off) M = Some (SetKeyOffset u off M)"
| "call (CallSetFlags u f) M = Some (SetFlags u f M)"
| "call (CallMakeIndex NewTable DefineDeltaArray) M =
     map_option snd (MakeIndex NewTable DefineDeltaArray M)"

fun calls :: "ManagerCall list \<Rightarrow> IndexManager \<Rightarrow> IndexManager option" where
  "calls [] M = Some M"
| "calls (c # cs) M = (case call c M of None \<Rightarrow> None | Some M \<Rightarrow> calls cs M)"


section \<open>Example tables\<close>

text \<open>A CBR table of two streams, 100 bytes for each edit unit, the second stream 40 bytes
  into it.\<close>

definition example_CBR_table :: IndexTable where
  "example_CBR_table =
     \<lparr>IndexTable.IndexSID = 2, IndexTable.BodySID = 1,
      IndexTable.EditRate = \<lparr>Numerator = 25, Denominator = 1\<rparr>,
      IndexTable.IndexDuration = 0, IndexTable.PreCharge = 0, EditUnitByteCount = 100, BaseDeltaCount = 2,
      BaseDeltaArray = [\<lparr>PosTableIndex = 0, Slice = 0, ElementDelta = [0, 0, 0, 0]\<rparr>,
                        \<lparr>PosTableIndex = 0, Slice = 0, ElementDelta = [0, 0, 0, 40]\<rparr>],
      SegmentMap = [], NSL = 0, NPE = 0, IndexEntrySize = 11\<rparr>"

text \<open>A VBR table of one re-ordered stream: one segment, three entries with the temporal
  offsets 0, +1 and -1.\<close>

definition example_VBR_table :: IndexTable where
  "example_VBR_table =
     \<lparr>IndexTable.IndexSID = 2, IndexTable.BodySID = 1,
      IndexTable.EditRate = \<lparr>Numerator = 25, Denominator = 1\<rparr>,
      IndexTable.IndexDuration = 0, IndexTable.PreCharge = 0, EditUnitByteCount = 0,
      BaseDeltaCount = 1,
      BaseDeltaArray = [\<lparr>PosTableIndex = - 1, Slice = 0, ElementDelta = [0, 0, 0, 0]\<rparr>],
      SegmentMap =
        [(0, \<lparr>StartPosition = 0, EntryCount = 3, DeltaCount = 1,
               DeltaArray = [\<lparr>PosTableIndex = - 1, Slice = 0, ElementDelta = [0, 0, 0, 0]\<rparr>],
               IndexEntryArray =
                 [0, 0, 0x80, 0, 0, 0, 0, 0, 0, 0, 0,
                  1, 0xFF, 0, 0, 0, 0, 0, 0, 0, 0x10, 0,
                  0xFF, 0xFE, 0, 0, 0, 0, 0, 0, 0, 0x20, 0]\<rparr>)],
      NSL = 0, NPE = 0, IndexEntrySize = 11\<rparr>"

text \<open>The segment of the VBR table; a table with one slice, and a segment of it that
  holds 4368 entries of 15 bytes; a table with one slice and one \<open>PosTable\<close> entry.\<close>

definition example_segment :: IndexSegment where
  "example_segment = snd (hd (SegmentMap example_VBR_table))"

definition example_sliced_table :: IndexTable where
  "example_sliced_table = example_VBR_table\<lparr>NSL := 1, IndexEntrySize := 15\<rparr>"

definition example_full_segment :: IndexSegment where
  "example_full_segment =
     \<lparr>StartPosition = 0, EntryCount = 4368, DeltaCount = 0, DeltaArray = [],
      IndexEntryArray = replicate 65520 0\<rparr>"


section \<open>Well-formed segment maps\<close>

text \<open>A \<open>std::map\<close> holds its keys in strictly increasing order.\<close>

definition keys_sorted :: "IndexSegmentMap \<Rightarrow> bool" where
  "keys_sorted m = sorted_wrt (\<lambda>a b. sint (fst a) < sint (fst b)) m"

text \<open>An edit unit is in a segment, or is the first edit unit beyond its last entry.\<close>

definition contains_unit :: "IndexSegment \<Rightarrow> Position \<Rightarrow> bool" where
  "contains_unit s E =
     (sint (StartPosition s) \<le> sint E \<and> sint E < sint (StartPosition s) + EntryCount s)"

definition first_beyond :: "IndexSegment \<Rightarrow> Position \<Rightarrow> bool" where
  "first_beyond s E = (sint E = sint (StartPosition s) + EntryCount s)"

text \<open>The segments of a table as the specification's data model has them: each under
  the key of its start position (\<open>AddSegment\<close> inserts them so), in increasing order
  without overlap, and with no entry beyond the largest \<open>Position\<close>.\<close>

definition segments_ok :: "IndexSegmentMap \<Rightarrow> bool" where
  "segments_ok m =
     (sorted_wrt (\<lambda>a b. sint (fst a) < sint (fst b)
                      \<and> sint (fst a) + EntryCount (snd a) \<le> sint (fst b)) m
      \<and> list_all (\<lambda>a. StartPosition (snd a) = fst a \<and> 0 \<le> EntryCount (snd a)
                       \<and> sint (fst a) + EntryCount (snd a) < 2 ^ 63) m)"

text \<open>The segment at position \<open>it\<close> of the map is the last one that starts at or before
  the edit unit.\<close>

definition nearest_before :: "IndexSegmentMap \<Rightarrow> Position \<Rightarrow> nat \<Rightarrow> bool" where
  "nearest_before m E it =
     (it < length m \<and> sint (fst (m ! it)) \<le> sint E
      \<and> (\<forall>j<length m. sint (fst (m ! j)) \<le> sint E \<longrightarrow> j \<le> it))"

section \<open>Example manager\<close>

text \<open>The manager of one re-ordered VBR stream, as the constructor leaves it, and a
  stand-in for \<open>DefineDeltaArray\<close> that allocates one zeroed delta entry for each
  stream.\<close>

definition example_manager :: IndexManager where
  "example_manager = IndexManager_new (\<lambda>i. 0) (\<lambda>i. 0) 0 (- 1) 0"

definition example_DefineDeltaArray :: "int \<Rightarrow> (nat \<Rightarrow> UInt32) \<Rightarrow> IndexTable \<Rightarrow> IndexTable" where
  "example_DefineDeltaArray n sizes T =
     T\<lparr>BaseDeltaCount := n,
       BaseDeltaArray := replicate (nat n) \<lparr>PosTableIndex = 0, Slice = 0, ElementDelta = [0, 0, 0, 0]\<rparr>\<rparr>"

section \<open>Filler size\<close>

text \<open>Raising a filler by whole KAGs: one step of the loop, and where it ends.\<close>

lemma raise_to_step:
  assumes "0 < k" "f < m"
  shows "raise_to f k m = raise_to (f + k) k m"
proof -
  have e: "(m - f + k - 1) div k = 1 + (m - f - 1) div k"
  proof -
    have "m - f + k - 1 = (m - f - 1) + 1 * k" by simp
    then show ?thesis using assms(1)
      by (metis add.commute div_mult_self1 less_irrefl)
  qed
  show ?thesis
  proof (cases "m \<le> f + k")
    case True
    then have "(m - f - 1) div k = 0" using assms by (simp add: div_pos_pos_trivial)
    then show ?thesis using True assms e by (simp add: raise_to_def)
  next
    case False
    have "(m - (f + k) + k - 1) = m - f - 1" by simp
    then show ?thesis using False assms e
      by (simp add: raise_to_def algebra_simps)
  qed
qed

lemma raise_to_bound:
  assumes "0 < k" "f < m"
  shows "m \<le> raise_to f k m \<and> raise_to f k m < m + k \<and> f + k \<le> raise_to f k m
     \<and> (raise_to f k m - f) mod k = 0"
proof -
  let ?q = "(m - f + k - 1) div k"
  have r: "raise_to f k m = f + k * ?q" using assms by (simp add: raise_to_def)
  have dm: "k * ?q + (m - f + k - 1) mod k = m - f + k - 1" by (rule mult_div_mod_eq)
  have m0: "0 \<le> (m - f + k - 1) mod k" and m1: "(m - f + k - 1) mod k < k"
    using assms(1) by simp_all
  have a: "k * ?q \<le> m - f + k - 1" using dm m0 by linarith
  have b: "m - f + k - 1 < k * ?q + k" using dm m1 by linarith
  have c: "1 \<le> ?q"
  proof (rule ccontr)
    assume "\<not> 1 \<le> ?q"
    then have "?q \<le> 0" by simp
    then have "k * ?q \<le> 0" using assms(1) by (simp add: mult_nonneg_nonpos)
    then show False using b assms by linarith
  qed
  then have d: "k \<le> k * ?q" using assms(1) by simp
  show ?thesis using r a b d by simp
qed


lemma fill_loop_nowrap:
  assumes "uint K + uint M \<le> 2 ^ 32" "0 < uint K"
  shows "fill_loop M K F = Some (word_of_int (raise_to (uint F) (uint K) (uint M)))"
proof (induction "nat (uint M - uint F)" arbitrary: F rule: less_induct)
  case less
  show ?case
  proof (cases "F < M")
    case False
    then have "uint M \<le> uint F" by (simp add: word_less_def)
    then show ?thesis using False by (simp add: fill_loop.simps raise_to_def)
  next
    case True
    then have lt: "uint F < uint M" by (simp add: word_less_def)
    have s: "uint F + uint K < 2 ^ 32" using lt assms(1) by linarith
    have u: "uint (F + K) = uint F + uint K"
      using s by (simp add: uint_add_lem [THEN iffD1])
    have "nat (uint M - uint (F + K)) < nat (uint M - uint F)"
      using u lt assms(2) by linarith
    from less [OF this]
    have "fill_loop M K (F + K) = Some (word_of_int (raise_to (uint F + uint K) (uint K) (uint M)))"
      by (simp add: u)
    moreover have "fill_loop M K F = fill_loop M K (F + K)"
      using True by (subst fill_loop.simps) simp
    ultimately show ?thesis using raise_to_step [OF assms(2) lt] by simp
  qed
qed

lemma fill_loop_wrap:
  assumes "2 ^ 32 < uint K + uint M" "M \<le> K" "F < M"
  shows "\<exists>r. fill_loop M K F = Some r \<and> K \<le> r"
  using assms(3)
proof (induction "unat F" arbitrary: F rule: less_induct)
  case less
  have lt: "uint F < uint M" using less.prems by (simp add: word_less_def)
  have st: "fill_loop M K F = fill_loop M K (F + K)"
    using less.prems by (subst fill_loop.simps) simp
  show ?case
  proof (cases "uint F + uint K < 2 ^ 32")
    case True
    then have u: "uint (F + K) = uint F + uint K"
      by (simp add: uint_add_lem [THEN iffD1])
    then have "uint K \<le> uint (F + K)" by simp
    then have kl: "K \<le> F + K" by (simp add: word_le_def)
    then have "\<not> F + K < M" using assms(2) by simp
    then have "fill_loop M K (F + K) = Some (F + K)"
      by (subst fill_loop.simps) simp
    then show ?thesis using st kl by simp
  next
    case False
    then have ge: "2 ^ 32 \<le> uint F + uint K" by simp
    have "uint (F + K) = (uint F + uint K) mod 2 ^ 32"
      by (simp add: uint_word_ariths)
    also have "\<dots> = uint F + uint K - 2 ^ 32"
    proof -
      have "uint F + uint K < 2 * 2 ^ 32"
        using uint_lt2p [of F] uint_lt2p [of K] by simp
      then show ?thesis using ge
        by (smt (verit) mod_pos_pos_trivial mod_add_self2 minus_mod_self2)
    qed
    finally have u: "uint (F + K) = uint F + uint K - 2 ^ 32" .
    have "uint K < 2 ^ 32" using uint_lt2p [of K] by simp
    then have d: "uint (F + K) < uint F" using u by linarith
    then have "F + K < F" by (simp add: word_less_def)
    then have "unat (F + K) < unat F" by (simp only: word_less_nat_alt)
    moreover have "F + K < M" using d lt by (simp add: word_less_def)
    ultimately show ?thesis using less.hyps st by simp
  qed
qed


lemma spec_filler_size_raise:
  "spec_filler_size p k m = raise_to ((k - p mod k) mod k) k m"
  by (simp add: spec_filler_size_def raise_to_def Let_def)

lemma fill_loop_spec:
  assumes k: "0 < uint K" and f: "0 < uint F"
    and m: "M \<le> K \<or> uint K + uint M \<le> 2 ^ 32" "uint M \<le> 20"
  shows "\<exists>r. fill_loop M K F = Some r \<and>
           (if 0xffffff < raise_to (uint F) (uint K) (uint M) then 0xffffff < r
            else r \<le> 0xffffff \<and> uint r = raise_to (uint F) (uint K) (uint M))"
proof (cases "uint K + uint M \<le> 2 ^ 32")
  case True
  let ?n = "raise_to (uint F) (uint K) (uint M)"
  have r: "fill_loop M K F = Some (word_of_int ?n)"
    by (rule fill_loop_nowrap [OF True k])
  have b: "0 \<le> ?n \<and> ?n < 2 ^ 32"
  proof (cases "uint M \<le> uint F")
    case True
    then show ?thesis using uint_lt2p [of F] by (simp add: raise_to_def)
  next
    case False
    then have "uint F < uint M" by simp
    from raise_to_bound [OF k this] have "uint M \<le> ?n" "?n < uint M + uint K" by simp_all
    then show ?thesis using \<open>uint K + uint M \<le> 2 ^ 32\<close> uint_ge_0 [of M] by linarith
  qed
  then have u: "uint (word_of_int ?n :: 32 word) = ?n"
    by (simp add: uint_word_of_int mod_pos_pos_trivial)
  have "(0xffffff < (word_of_int ?n :: 32 word)) = (0xffffff < ?n)"
    by (simp add: word_less_def u)
  then show ?thesis using r u by (auto simp: not_less)
next
  case False
  then have big: "2 ^ 32 < uint K + uint M" by simp
  then have mk: "M \<le> K" using m(1) by simp
  have kbig: "2 ^ 32 - 20 < uint K" using big m(2) by linarith
  show ?thesis
  proof (cases "F < M")
    case True
    then have lt: "uint F < uint M" by (simp add: word_less_def)
    from fill_loop_wrap [OF big mk True] obtain r where r: "fill_loop M K F = Some r" "K \<le> r"
      by blast
    have "uint K \<le> uint r" using r(2) by (simp add: word_le_def)
    then have "0xffffff < uint r" using kbig by simp
    then have "0xffffff < r" by (simp add: word_less_def)
    moreover have "0xffffff < raise_to (uint F) (uint K) (uint M)"
    proof -
      from raise_to_bound [OF k lt] have "uint F + uint K \<le> raise_to (uint F) (uint K) (uint M)"
        by simp
      then show ?thesis using f kbig by simp
    qed
    ultimately show ?thesis using r(1) by simp
  next
    case False
    then have ge: "uint M \<le> uint F" by (simp add: word_less_def)
    have r: "fill_loop M K F = Some F" using False by (subst fill_loop.simps) simp
    have "(0xffffff < F) = (0xffffff < uint F)" by (simp add: word_less_def)
    then show ?thesis using r ge by (auto simp: raise_to_def not_less)
  qed
qed

lemma rem_trunc_nonneg: "0 \<le> p \<Longrightarrow> 0 < k \<Longrightarrow> rem_trunc p k = p mod k"
  by (cases "p = 0") (simp_all add: rem_trunc_def)

lemma rem_trunc_neg: "p < 0 \<Longrightarrow> 0 < k \<Longrightarrow> rem_trunc p k = - ((- p) mod k)"
  by (simp add: rem_trunc_def)

lemma rem_trunc_multiple:
  assumes "0 < k"
  shows "(p - rem_trunc p k) mod k = 0"
proof (cases "0 \<le> p")
  case True
  have "k * (p div k) + p mod k = p" by (rule mult_div_mod_eq)
  then have "p - p mod k = k * (p div k)" by linarith
  then show ?thesis using rem_trunc_nonneg [OF True assms] by simp
next
  case False
  then have n: "p < 0" by simp
  have "k * ((- p) div k) + (- p) mod k = - p" by (rule mult_div_mod_eq)
  then have "p + (- p) mod k = - (k * ((- p) div k))" by linarith
  then have "p + (- p) mod k = k * (- ((- p) div k))" by simp
  then show ?thesis using rem_trunc_neg [OF n assms] by simp
qed

lemma rem_trunc_zero:
  assumes "0 < k"
  shows "rem_trunc p k = 0 \<longleftrightarrow> p mod k = 0"
proof
  assume "rem_trunc p k = 0"
  then show "p mod k = 0" using rem_trunc_multiple [OF assms, of p] by simp
next
  assume z: "p mod k = 0"
  show "rem_trunc p k = 0"
  proof (cases "0 \<le> p")
    case True
    then show ?thesis using z rem_trunc_nonneg [OF True assms] by simp
  next
    case False
    then have n: "p < 0" by simp
    have "k dvd p" using z by (simp add: dvd_eq_mod_eq_0)
    then have "k dvd - p" by simp
    then have "(- p) mod k = 0" by (simp add: dvd_eq_mod_eq_0)
    then show ?thesis using rem_trunc_neg [OF n assms] by simp
  qed
qed

lemma rem_trunc_range:
  assumes "0 < k"
  shows "(0 \<le> p \<longrightarrow> 0 \<le> rem_trunc p k \<and> rem_trunc p k < k)
       \<and> (p < 0 \<longrightarrow> - k < rem_trunc p k \<and> rem_trunc p k \<le> 0)"
proof (intro conjI impI)
  assume p: "0 \<le> p"
  show "0 \<le> rem_trunc p k" "rem_trunc p k < k"
    using rem_trunc_nonneg [OF p assms] assms by simp_all
next
  assume n: "p < 0"
  have "0 \<le> (- p) mod k" "(- p) mod k < k" using assms by simp_all
  then show "- k < rem_trunc p k" "rem_trunc p k \<le> 0"
    using rem_trunc_neg [OF n assms] by simp_all
qed

lemma CalcFillerSize_unfold:
  assumes K: "K \<noteq> 0" and R: "0 \<le> sint P \<or> uint K \<le> 2 ^ 31"
    and nz: "sint P mod uint K \<noteq> 0"
  shows "\<exists>F. uint F = uint K - rem_trunc (sint P) (uint K) \<and> 0 < uint F \<and>
     CalcFillerSize P K B =
       (case fill_loop (if B then 20 else 17) K F of None \<Rightarrow> None
        | Some Fill \<Rightarrow> if Fill > 0x00ffffff then Some (0x00ffffff, True) else Some (Fill, False))"
proof -
  have "uint K \<noteq> 0" using K by (simp add: uint_0_iff)
  then have k: "0 < uint K" using uint_ge_0 [of K] by linarith
  let ?r = "rem_trunc (sint P) (uint K)"
  let ?o = "word_of_int ?r :: 32 word"
  have rnz: "?r \<noteq> 0" using nz rem_trunc_zero [OF k, of "sint P"] by simp
  have kl: "uint K < 2 ^ 32" using uint_lt2p [of K] by simp
  have rb: "0 < uint K - ?r \<and> uint K - ?r < 2 ^ 32 \<and> \<bar>?r\<bar> < 2 ^ 32"
  proof (cases "0 \<le> sint P")
    case True
    then show ?thesis using rem_trunc_range [OF k, of "sint P"] rnz kl by simp
  next
    case False
    then have "uint K \<le> 2 ^ 31" using R by simp
    then show ?thesis using False rem_trunc_range [OF k, of "sint P"] by simp
  qed
  have onz: "?o \<noteq> 0"
  proof
    assume "?o = 0"
    then have "(2 ^ 32 :: int) dvd ?r"
      by (simp add: word_of_int_eq_0_iff)
    then have "(2 ^ 32 :: int) \<le> \<bar>?r\<bar>" using rnz dvd_imp_le_int [of ?r "2 ^ 32"] by simp
    then show False using rb by simp
  qed
  have "K - ?o = word_of_int (uint K - ?r)" by simp
  then have "uint (K - ?o) = (uint K - ?r) mod 2 ^ 32"
    by (simp only: uint_word_of_int) simp
  then have uf: "uint (K - ?o) = uint K - ?r"
    using rb by (simp add: mod_pos_pos_trivial)
  have "CalcFillerSize P K B =
       (case fill_loop (if B then 20 else 17) K (K - ?o) of None \<Rightarrow> None
        | Some Fill \<Rightarrow> if Fill > 0x00ffffff then Some (0x00ffffff, True) else Some (Fill, False))"
    using onz K by (cases B) (simp_all add: CalcFillerSize_def Let_def)
  moreover have "0 < uint (K - ?o)" using uf rb by simp
  ultimately show ?thesis using uf by (intro exI [of _ "K - ?o"]) simp
qed

lemma CalcFillerSize_required:
  assumes K: "K \<noteq> 0" and R: "0 \<le> sint P \<or> uint K \<le> 2 ^ 31"
    and nz: "sint P mod uint K \<noteq> 0"
  shows "CalcFillerSize P K B =
     (if 0xffffff < required_filler (sint P) (uint K) (if B then 20 else 17)
      then Some (0xffffff, True)
      else Some (word_of_int (required_filler (sint P) (uint K) (if B then 20 else 17)), False))"
proof -
  let ?M = "(if B then 20 else 17) :: 32 word"
  have um: "uint ?M = (if B then 20 else 17)" by simp
  have "uint K \<noteq> 0" using K by (simp add: uint_0_iff)
  then have k: "0 < uint K" using uint_ge_0 [of K] by linarith
  from CalcFillerSize_unfold [OF assms, of B] obtain F where
    F: "uint F = uint K - rem_trunc (sint P) (uint K)" and f: "0 < uint F" and
    c: "CalcFillerSize P K B =
       (case fill_loop ?M K F of None \<Rightarrow> None
        | Some Fill \<Rightarrow> if Fill > 0x00ffffff then Some (0x00ffffff, True) else Some (Fill, False))"
    by blast
  have sp: "required_filler (sint P) (uint K) (uint ?M) = raise_to (uint F) (uint K) (uint ?M)"
    by (simp only: required_filler_def F)
  have m1: "?M \<le> K \<or> uint K + uint ?M \<le> 2 ^ 32"
  proof (cases "uint K + uint ?M \<le> 2 ^ 32")
    case False
    then have "uint ?M \<le> uint K" by (simp split: if_splits)
    then show ?thesis by (simp only: word_le_def) simp
  qed simp
  have m2: "uint ?M \<le> 20" by simp
  from fill_loop_spec [OF k f m1 m2] obtain r where
    r: "fill_loop ?M K F = Some r"
       "if 0xffffff < raise_to (uint F) (uint K) (uint ?M) then 0xffffff < r
            else r \<le> 0xffffff \<and> uint r = raise_to (uint F) (uint K) (uint ?M)"
    by blast
  have cs: "CalcFillerSize P K B = (if r > 0x00ffffff then Some (0x00ffffff, True) else Some (r, False))"
    using c r(1) by simp
  show ?thesis
  proof (cases "0xffffff < raise_to (uint F) (uint K) (uint ?M)")
    case True
    then have "0xffffff < r" using r(2) by simp
    then have "CalcFillerSize P K B = Some (0x00ffffff, True)" using cs by simp
    then show ?thesis using True sp um by simp
  next
    case False
    then have "r \<le> 0xffffff" "uint r = raise_to (uint F) (uint K) (uint ?M)" using r(2) by simp_all
    then have "CalcFillerSize P K B = Some (r, False)" "uint r = required_filler (sint P) (uint K) (uint ?M)"
      using cs sp by (simp_all add: not_less [symmetric])
    moreover have "word_of_int (uint r) = r" by simp
    ultimately have "CalcFillerSize P K B =
        Some (word_of_int (required_filler (sint P) (uint K) (uint ?M)), False)"
      by (simp only:)
    then show ?thesis using False sp um by simp
  qed
qed

lemma required_filler_aligned:
  assumes "0 < k" "0 < m"
  shows "m \<le> required_filler p k m \<and> (p + required_filler p k m) mod k = 0"
proof -
  let ?f = "k - rem_trunc p k"
  have "p + ?f = (p - rem_trunc p k) + k" by simp
  then have "(p + ?f) mod k = (p - rem_trunc p k) mod k" by (simp only: mod_add_self2)
  then have pf: "(p + ?f) mod k = 0" using rem_trunc_multiple [OF assms(1), of p] by simp
  show ?thesis
  proof (cases "m \<le> ?f")
    case True
    then show ?thesis using pf by (simp add: required_filler_def raise_to_def)
  next
    case False
    then have lt: "?f < m" by simp
    let ?n = "raise_to ?f k m"
    from raise_to_bound [OF assms(1) lt] have n: "m \<le> ?n" "(?n - ?f) mod k = 0" by simp_all
    have "(p + ?n) mod k = ((p + ?f) + (?n - ?f)) mod k" by simp
    also have "\<dots> = ((p + ?f) mod k + (?n - ?f) mod k) mod k" by (rule mod_add_eq [symmetric])
    also have "\<dots> = 0" by (simp only: pf n(2)) simp
    finally show ?thesis using n(1) by (simp add: required_filler_def)
  qed
qed

lemma required_filler_spec:
  assumes "0 < k" "0 \<le> p" "p mod k \<noteq> 0"
  shows "required_filler p k m = spec_filler_size p k m"
proof -
  have b: "0 \<le> p mod k" "p mod k < k" using assms(1) by simp_all
  then have "0 < k - p mod k" "k - p mod k < k" using assms(3) by simp_all
  then have "(k - p mod k) mod k = k - p mod k" by (intro mod_pos_pos_trivial) simp_all
  then show ?thesis
    using rem_trunc_nonneg [OF assms(2) assms(1)]
    by (simp add: required_filler_def spec_filler_size_raise)
qed

text \<open>C3. For every KAG size \<open>K > 0\<close> and every position \<open>P\<close> that is not negative, and
  also for a negative \<open>P\<close> as long as the KAG is not larger than \<open>2^31\<close> bytes: when
  \<open>P mod K = 0\<close>, \<open>CalcFillerSize\<close> returns 0; otherwise, when the required filler (\<open>K\<close>
  less the remainder of \<open>P\<close>, raised by whole KAGs to the minimum, 17 or 20 with
  \<open>ForceBER4\<close>; for \<open>P \<ge> 0\<close> this is the specification's \<open>(kag - position mod kag) mod kag\<close>
  raised in the same way) exceeds \<open>0x00FFFFFF\<close> it reports an error and returns exactly
  \<open>0x00FFFFFF\<close>, and else it returns, without an error, that size \<open>S\<close>, for which
  \<open>(P + S) mod K = 0\<close> and \<open>S \<ge> 17\<close> (\<open>S \<ge> 20\<close> with \<open>ForceBER4\<close>).\<close>

theorem CalcFillerSize_filler_law:
  assumes "KAGSize \<noteq> 0" and "0 \<le> sint FillPos \<or> uint KAGSize \<le> 2 ^ 31"
  shows "(sint FillPos mod uint KAGSize = 0 \<longrightarrow>
            CalcFillerSize FillPos KAGSize ForceBER4 = Some (0, False)) \<and>
         (sint FillPos mod uint KAGSize \<noteq> 0 \<longrightarrow>
            (let S = required_filler (sint FillPos) (uint KAGSize)
                       (if ForceBER4 then 20 else 17)
             in (0 \<le> sint FillPos \<longrightarrow>
                   S = spec_filler_size (sint FillPos) (uint KAGSize)
                         (if ForceBER4 then 20 else 17)) \<and>
                (if 0xffffff < S
                 then CalcFillerSize FillPos KAGSize ForceBER4 = Some (0xffffff, True)
                 else CalcFillerSize FillPos KAGSize ForceBER4 = Some (word_of_int S, False)
                      \<and> uint (word_of_int S :: UInt32) = S
                      \<and> (sint FillPos + S) mod uint KAGSize = 0
                      \<and> (if ForceBER4 then 20 else 17) \<le> S)))"
proof (intro conjI impI)
  have "uint KAGSize \<noteq> 0" using assms(1) by (simp add: uint_0_iff)
  then have k: "0 < uint KAGSize" using uint_ge_0 [of KAGSize] by linarith
  {
    assume z: "sint FillPos mod uint KAGSize = 0"
    then have "rem_trunc (sint FillPos) (uint KAGSize) = 0"
      using rem_trunc_zero [OF k, of "sint FillPos"] by simp
    then show "CalcFillerSize FillPos KAGSize ForceBER4 = Some (0, False)"
      using assms(1) by (simp add: CalcFillerSize_def Let_def)
  }
  {
    assume nz: "sint FillPos mod uint KAGSize \<noteq> 0"
    let ?m = "(if ForceBER4 then 20 else 17) :: int"
    let ?n = "required_filler (sint FillPos) (uint KAGSize) ?m"
    have c: "CalcFillerSize FillPos KAGSize ForceBER4 =
       (if 0xffffff < ?n then Some (0xffffff, True) else Some (word_of_int ?n, False))"
      by (rule CalcFillerSize_required [OF assms nz])
    have al: "?m \<le> ?n" "(sint FillPos + ?n) mod uint KAGSize = 0"
      using required_filler_aligned [OF k, of ?m "sint FillPos"] by simp_all
    have sp: "0 \<le> sint FillPos \<longrightarrow>
        ?n = spec_filler_size (sint FillPos) (uint KAGSize) ?m"
      using required_filler_spec [OF k _ nz] by simp
    have "if 0xffffff < ?n
          then CalcFillerSize FillPos KAGSize ForceBER4 = Some (0xffffff, True)
          else CalcFillerSize FillPos KAGSize ForceBER4 = Some (word_of_int ?n, False)
               \<and> uint (word_of_int ?n :: UInt32) = ?n
               \<and> (sint FillPos + ?n) mod uint KAGSize = 0 \<and> ?m \<le> ?n"
    proof (cases "0xffffff < ?n")
      case True
      then show ?thesis using c by simp
    next
      case False
      have "0 \<le> ?n" using al(1) by (simp split: if_splits)
      moreover have "?n < 2 ^ 32" using False by simp
      ultimately have u: "uint (word_of_int ?n :: 32 word) = ?n"
        by (simp add: uint_word_of_int mod_pos_pos_trivial)
      show ?thesis using False c u al by simp
    qed
    then show "let S = ?n
          in (0 \<le> sint FillPos \<longrightarrow>
                   S = spec_filler_size (sint FillPos) (uint KAGSize) ?m) \<and>
             (if 0xffffff < S
             then CalcFillerSize FillPos KAGSize ForceBER4 = Some (0xffffff, True)
             else CalcFillerSize FillPos KAGSize ForceBER4 = Some (word_of_int S, False)
                  \<and> uint (word_of_int S :: UInt32) = S
                  \<and> (sint FillPos + S) mod uint KAGSize = 0 \<and> ?m \<le> S)"
      using sp by (simp only: Let_def)
  }
qed

theorem CalcFillerSize_filler_law_witness:
  "(512 :: UInt32) \<noteq> 0 \<and> 0 \<le> sint (1000 :: Position)
   \<and> sint (1000 :: Position) mod uint (512 :: UInt32) \<noteq> 0
   \<and> required_filler (sint (1000 :: Position)) (uint (512 :: UInt32)) 20 = 24
   \<and> spec_filler_size (sint (1000 :: Position)) (uint (512 :: UInt32)) 20 = 24
   \<and> CalcFillerSize 1000 512 True = Some (24, False)"
  using CalcFillerSize_filler_law [of 512 1000 True]
  by (simp add: spec_filler_size_def required_filler_def raise_to_def rem_trunc_def)

text \<open>Two positions before the start of the file: the filler is one KAG longer than the
  distance to the KAG boundary, and the maximum applies to that size.\<close>

lemma CalcFillerSize_before_origin:
  "CalcFillerSize (- 3) 512 False = Some (515, False)"
  "(sint (- 3 :: Position) + 515) mod uint (512 :: UInt32) = 0"
  "CalcFillerSize (- 20) 0x1000000 False = Some (0xffffff, True)"
  by (simp_all add: CalcFillerSize_def rem_trunc_def fill_loop.simps)

text \<open>The bound on the KAG for negative positions is needed: at the position
  \<open>-2147483655\<close> with a KAG of \<open>2147483658\<close> bytes the difference
  \<open>KAGSize - Offset\<close> no longer fits \<open>UInt32\<close>, and the function returns 17 without an
  error although \<open>-2147483655 + 17\<close> is not a multiple of the KAG. The one call of the
  function in \<open>essence.h\<close>, in \<open>GetBytesPerEditUnit\<close>, passes the unsigned size 77.\<close>

lemma CalcFillerSize_remainder_wraps:
  "rem_trunc (sint (- 2147483655 :: Position)) (uint (2147483658 :: UInt32)) \<noteq> 0
   \<and> CalcFillerSize (- 2147483655) 2147483658 False = Some (17, False)
   \<and> (sint (- 2147483655 :: Position) + uint (17 :: UInt32)) mod uint (2147483658 :: UInt32) \<noteq> 0"
  by (simp add: CalcFillerSize_def rem_trunc_def fill_loop.simps)

section \<open>Current position of the MPEG2 parser\<close>

text \<open>C9. The guard expression \<open>(NativeEditRate.Denominator || 0)\<close> is truthy for every
  native edit rate that the parser sets (\<open>BuildMPEG2VideoDescriptor\<close> gives it the
  denominator 1001 or 1), and in general whenever that denominator is not zero; so
  whenever the selected edit rate differs from the native edit rate, \<open>GetCurrentPosition\<close>
  returns 0 instead of computing the rescaled position. In a state whose native
  denominator is zero, which no assignment of the parser produces, the function returns
  0 as well or rescales the product zero: \<open>Rescaled 0 d\<close>, that is
  \<open>floor(0 / d + 0.5)\<close>.\<close>

theorem GetCurrentPosition_nonnative_returns_zero:
  "NativeGuard (BuildMPEG2VideoDescriptor_NativeEditRate DropFrame FrameRate p) \<and>
   (Denominator (NativeEditRate p) \<noteq> 0 \<longrightarrow> NativeGuard p) \<and>
   (Numerator (SelectedEditRate p) \<noteq> Numerator (NativeEditRate p)
      \<or> Denominator (SelectedEditRate p) \<noteq> Denominator (NativeEditRate p)
    \<longrightarrow> (NativeGuard p \<longrightarrow> GetCurrentPosition p = Returns 0) \<and>
        (GetCurrentPosition p = Returns 0 \<or> (\<exists>d. GetCurrentPosition p = Rescaled 0 d)))"
  by (auto simp: NativeGuard_def truthy_def GetCurrentPosition_def
      BuildMPEG2VideoDescriptor_NativeEditRate_def)

theorem GetCurrentPosition_nonnative_returns_zero_witness:
  "NativeEditRate (BuildMPEG2VideoDescriptor_NativeEditRate True 30
       \<lparr>NativeEditRate = \<lparr>Numerator = 0, Denominator = 0\<rparr>,
        SelectedEditRate = \<lparr>Numerator = 25, Denominator = 1\<rparr>, PictureNumber = 10\<rparr>)
     = \<lparr>Numerator = 30000, Denominator = 1001\<rparr>
   \<and> NativeGuard (BuildMPEG2VideoDescriptor_NativeEditRate True 30
       \<lparr>NativeEditRate = \<lparr>Numerator = 0, Denominator = 0\<rparr>,
        SelectedEditRate = \<lparr>Numerator = 25, Denominator = 1\<rparr>, PictureNumber = 10\<rparr>)
   \<and> GetCurrentPosition (BuildMPEG2VideoDescriptor_NativeEditRate True 30
       \<lparr>NativeEditRate = \<lparr>Numerator = 0, Denominator = 0\<rparr>,
        SelectedEditRate = \<lparr>Numerator = 25, Denominator = 1\<rparr>, PictureNumber = 10\<rparr>)
     = Returns 0"
  using GetCurrentPosition_nonnative_returns_zero
    [where p = "BuildMPEG2VideoDescriptor_NativeEditRate True 30
       \<lparr>NativeEditRate = \<lparr>Numerator = 0, Denominator = 0\<rparr>,
        SelectedEditRate = \<lparr>Numerator = 25, Denominator = 1\<rparr>, PictureNumber = 10\<rparr>"
     and DropFrame = True and FrameRate = 30]
  by (simp add: BuildMPEG2VideoDescriptor_NativeEditRate_def)

section \<open>Index table look-up\<close>

lemma Position_mul_add_sint:
  fixes E :: "64 word" and b :: "32 word" and c :: "32 word"
  assumes "- (2 ^ 63) \<le> sint E * uint b + uint c" "sint E * uint b + uint c < 2 ^ 63"
  shows "sint (E * ucast b + ucast c) = sint E * uint b + uint c"
proof -
  have "word_of_int (sint E * uint b + uint c)
        = (word_of_int (sint E) * word_of_int (uint b) + word_of_int (uint c) :: 64 word)"
    by (simp only: of_int_add of_int_mult)
  also have "\<dots> = E * ucast b + ucast c"
    by (simp only: ucast_eq [symmetric]) simp
  finally have "E * ucast b + ucast c = word_of_int (sint E * uint b + uint c)"
    by simp
  then have "sint (E * ucast b + ucast c) = signed_take_bit 63 (sint E * uint b + uint c)"
    by (simp only: sint_sbintrunc') simp
  then show ?thesis using assms by (simp add: signed_take_bit_int_eq_self)
qed

text \<open>C1. In a CBR index table (\<open>EditUnitByteCount\<close> not zero), for every edit unit and
  every sub-item whose \<open>DeltaEntry\<close> has \<open>Slice = 0\<close>, \<open>Lookup\<close> returns a result
  whose \<open>Location\<close> is the edit unit times \<open>EditUnitByteCount\<close> plus the sub-item's
  \<open>ElementDelta\<close> (nothing is added for sub-item 0), with \<open>Exact\<close> set; the equation
  holds in \<open>Position\<close> arithmetic and, when the sum fits a \<open>Position\<close>, as
  integers.\<close>

theorem Lookup_CBR_location:
  assumes "EditUnitByteCount T \<noteq> 0"
  shows "(SubItem = 0 \<longrightarrow>
           (\<exists>r. Lookup T EditUnit SubItem Reorder = Some r
                \<and> Location r = EditUnit * ucast (EditUnitByteCount T) \<and> Exact r)) \<and>
         (0 < SubItem \<and> SubItem < BaseDeltaCount T
            \<and> elem_at (BaseDeltaArray T) SubItem = Some d \<and> Slice d = 0 \<longrightarrow>
           (\<exists>r. Lookup T EditUnit SubItem Reorder = Some r
                \<and> Location r = EditUnit * ucast (EditUnitByteCount T)
                                 + ucast (GetU32 (ElementDelta d))
                \<and> Exact r
                \<and> (- (2 ^ 63) \<le> sint EditUnit * uint (EditUnitByteCount T)
                                   + uint (GetU32 (ElementDelta d))
                     \<and> sint EditUnit * uint (EditUnitByteCount T)
                          + uint (GetU32 (ElementDelta d)) < 2 ^ 63
                   \<longrightarrow> sint (Location r) = sint EditUnit * uint (EditUnitByteCount T)
                                               + uint (GetU32 (ElementDelta d)))))"
  using assms Position_mul_add_sint [of EditUnit "EditUnitByteCount T" "GetU32 (ElementDelta d)"]
  by (simp add: Lookup.simps Lookup_CBR_def Let_def new_IndexPos_def)

theorem Lookup_CBR_location_witness:
  "EditUnitByteCount example_CBR_table \<noteq> 0
   \<and> elem_at (BaseDeltaArray example_CBR_table) 1
        = Some \<lparr>PosTableIndex = 0, Slice = 0, ElementDelta = [0, 0, 0, 40]\<rparr>
   \<and> map_option Location (Lookup example_CBR_table 7 1 True) = Some 740
   \<and> map_option Exact (Lookup example_CBR_table 7 1 True) = Some True"
  using Lookup_CBR_location [where T = example_CBR_table and SubItem = 1 and EditUnit = 7
      and Reorder = True
      and d = "\<lparr>PosTableIndex = 0, Slice = 0, ElementDelta = [0, 0, 0, 40]\<rparr>"]
  by (auto simp: Lookup.simps example_CBR_table_def elem_at_def GetU32_def be_word_def)

text \<open>C2. In a VBR index table, for every edit unit that has an entry whose
  \<open>TemporalOffset\<close> is not zero, and every sub-item whose \<open>DeltaEntry\<close> has a negative
  \<open>PosTableIndex\<close> (or when the segment has no delta array), \<open>Lookup\<close> with
  \<open>Reorder = true\<close> returns the result of \<open>Lookup\<close> at the edit unit plus the temporal
  offset with \<open>Reorder = false\<close>, with only the \<open>TemporalOffset\<close> member set: the
  same \<open>Location\<close>.\<close>

theorem Lookup_reorder_law:
  assumes "EditUnitByteCount T = 0"
    and "locate T EditUnit = AtEntry Segment Ptr"
    and "bytes_at (IndexEntryArray Segment) Ptr 1 = Some [TempOffset]"
    and "TempOffset \<noteq> 0"
    and "DeltaCount Segment = 0
         \<or> (SubItem < DeltaCount Segment \<and> elem_at (DeltaArray Segment) SubItem = Some d
              \<and> sint (PosTableIndex d) < 0)"
  shows "Lookup T EditUnit SubItem True
           = map_option (\<lambda>Ret. Ret\<lparr>IndexPos.TemporalOffset := TempOffset\<rparr>)
               (Lookup T (EditUnit + scast TempOffset) SubItem False)
         \<and> map_option Location (Lookup T EditUnit SubItem True)
             = map_option Location (Lookup T (EditUnit + scast TempOffset) SubItem False)"
proof -
  have re: "reordered_item Segment SubItem = Some True"
    using assms(5) by (auto simp: reordered_item_def)
  have eq: "Lookup T EditUnit SubItem True
           = map_option (\<lambda>Ret. Ret\<lparr>IndexPos.TemporalOffset := TempOffset\<rparr>)
               (Lookup T (EditUnit + scast TempOffset) SubItem False)"
    using assms(1-4) re Lookup.simps [of T EditUnit SubItem True]
    by (simp del: Lookup.simps)
  have "map_option Location (Lookup T EditUnit SubItem True)
             = map_option Location (Lookup T (EditUnit + scast TempOffset) SubItem False)"
    by (simp only: eq option.map_comp) (simp add: comp_def)
  then show ?thesis using eq by simp
qed


theorem Lookup_reorder_law_witness:
  "EditUnitByteCount example_VBR_table = 0
   \<and> locate example_VBR_table 1 = AtEntry (snd (hd (SegmentMap example_VBR_table))) 11
   \<and> bytes_at (IndexEntryArray (snd (hd (SegmentMap example_VBR_table)))) 11 1 = Some [1]
   \<and> elem_at (DeltaArray (snd (hd (SegmentMap example_VBR_table)))) 0
        = Some \<lparr>PosTableIndex = - 1, Slice = 0, ElementDelta = [0, 0, 0, 0]\<rparr>
   \<and> map_option Location (Lookup example_VBR_table 2 0 False) = Some 8192
   \<and> map_option Location (Lookup example_VBR_table 1 0 True) = Some 8192"
proof -
  let ?S = "snd (hd (SegmentMap example_VBR_table))"
  let ?d = "\<lparr>PosTableIndex = - 1, Slice = 0, ElementDelta = [0, 0, 0, 0]\<rparr>"
  have a: "EditUnitByteCount example_VBR_table = 0" by (simp add: example_VBR_table_def)
  have b: "locate example_VBR_table 1 = AtEntry ?S 11"
    by (simp add: example_VBR_table_def locate_def)
  have c: "bytes_at (IndexEntryArray ?S) 11 1 = Some [1]"
    by (simp add: example_VBR_table_def bytes_at_def)
  have d: "elem_at (DeltaArray ?S) 0 = Some ?d"
    by (simp add: example_VBR_table_def elem_at_def)
  have e: "DeltaCount ?S = 0
         \<or> (0 < DeltaCount ?S \<and> elem_at (DeltaArray ?S) 0 = Some ?d
              \<and> sint (PosTableIndex ?d) < 0)"
    using d by (simp add: example_VBR_table_def)
  have f: "map_option Location (Lookup example_VBR_table 2 0 False) = Some 8192"
    by (simp add: Lookup.simps example_VBR_table_def locate_def bytes_at_def Lookup_entry_def
        reordered_item_def elem_at_def new_IndexPos_def GetU64_def be_word_def Let_def)
  have "(1 :: Int8) \<noteq> 0" by simp
  from Lookup_reorder_law [OF a b c this e, THEN conjunct2]
  have "map_option Location (Lookup example_VBR_table 1 0 True)
          = map_option Location (Lookup example_VBR_table (1 + scast (1 :: Int8)) 0 False)"
    by simp
  then have "map_option Location (Lookup example_VBR_table 1 0 True) = Some 8192"
    using f by simp
  then show ?thesis using a b c d f by simp
qed

section \<open>Adding an index entry to a segment\<close>



















text \<open>At the limit: with 4368 entries of 15 bytes, one more entry gives 65535 bytes of
  entries and, with the eight bytes of count and size, an entry array of 65543 bytes; the
  call returns false.\<close>

lemma AddIndexEntry_header_counted:
  "NSL example_sliced_table = 1 \<and> NPE example_sliced_table = 0
   \<and> IndexEntrySize example_sliced_table * (EntryCount example_full_segment + 1) = 65535
   \<and> AddIndexEntry example_sliced_table (\<lambda>i. 0) example_full_segment 0 0 0 0 1 [0] 0 []
        = Some (False, example_full_segment)"
  by (simp add: example_sliced_table_def example_VBR_table_def example_full_segment_def
      AddIndexEntry_def int32_def)

section \<open>Finding the segment of an edit unit\<close>

lemma map_find_le: "map_find m k \<le> length m"
  by (induction m) auto

lemma map_find_key: "map_find m k < length m \<Longrightarrow> fst (m ! map_find m k) = k"
  by (induction m) (auto split: if_splits)

lemma map_find_end: "map_find m k = length m \<longleftrightarrow> k \<notin> fst ` set m"
  by (induction m) (auto split: if_splits)

lemma lower_bound_le: "lower_bound m k \<le> length m"
  by (induction m) auto

lemma lower_bound_below: "j < lower_bound m k \<Longrightarrow> sint (fst (m ! j)) < sint k"
proof (induction m arbitrary: j)
  case Nil
  then show ?case by simp
next
  case (Cons a m)
  then show ?case by (cases a; cases j) (auto split: if_splits)
qed

lemma lower_bound_above:
  "keys_sorted m \<Longrightarrow> lower_bound m k \<le> j \<Longrightarrow> j < length m \<Longrightarrow> sint k \<le> sint (fst (m ! j))"
proof (induction m arbitrary: j)
  case Nil
  then show ?case by simp
next
  case (Cons a m)
  obtain k' v where a: "a = (k', v)" by (cases a)
  show ?case
  proof (cases "sint k' < sint k")
    case True
    then obtain j' where j: "j = Suc j'" using Cons.prems(2) a by (cases j) auto
    then show ?thesis using Cons True a by (auto simp: keys_sorted_def)
  next
    case False
    show ?thesis
    proof (cases j)
      case 0
      then show ?thesis using False a by simp
    next
      case (Suc j')
      then have "m ! j' \<in> set m" using Cons.prems(3) by simp
      then have "sint k' < sint (fst (m ! j'))" using Cons.prems(1) a by (auto simp: keys_sorted_def)
      then show ?thesis using False Suc by simp
    qed
  qed
qed

lemma keys_sorted_nth:
  "keys_sorted m \<Longrightarrow> i < j \<Longrightarrow> j < length m \<Longrightarrow> sint (fst (m ! i)) < sint (fst (m ! j))"
  by (simp add: keys_sorted_def sorted_wrt_iff_nth_less)

text \<open>The search finds the last segment that starts at or before the edit unit.\<close>

lemma find_or_before_spec:
  assumes "keys_sorted m"
  shows "(find_or_before m E < length m
            \<and> sint (fst (m ! find_or_before m E)) \<le> sint E
            \<and> (\<forall>j<length m. sint (fst (m ! j)) \<le> sint E \<longrightarrow> j \<le> find_or_before m E))
         \<or> (find_or_before m E = length m \<and> (\<forall>j<length m. sint E < sint (fst (m ! j))))"
proof (cases "map_find m E = length m")
  case False
  then have lt: "map_find m E < length m" using map_find_le [of m E] by simp
  then have k: "fst (m ! map_find m E) = E" by (rule map_find_key)
  have f: "find_or_before m E = map_find m E" using False by (simp add: find_or_before_def)
  have "\<forall>j<length m. sint (fst (m ! j)) \<le> sint E \<longrightarrow> j \<le> map_find m E"
  proof (intro allI impI)
    fix j assume j: "j < length m" "sint (fst (m ! j)) \<le> sint E"
    show "j \<le> map_find m E"
    proof (rule ccontr)
      assume "\<not> j \<le> map_find m E"
      then have "map_find m E < j" by simp
      from keys_sorted_nth [OF assms this j(1)] show False using k j(2) by simp
    qed
  qed
  then show ?thesis using f lt k by simp
next
  case True
  then have nk: "E \<notin> fst ` set m" by (simp add: map_find_end)
  have ne: "\<And>j. j < length m \<Longrightarrow> fst (m ! j) \<noteq> E"
    using nk by (metis nth_mem image_eqI)
  have ab: "\<And>j. lower_bound m E \<le> j \<Longrightarrow> j < length m \<Longrightarrow> sint E < sint (fst (m ! j))"
  proof -
    fix j assume "lower_bound m E \<le> j" "j < length m"
    then have "sint E \<le> sint (fst (m ! j))" "fst (m ! j) \<noteq> E"
      using lower_bound_above [OF assms] ne by simp_all
    then show "sint E < sint (fst (m ! j))"
      using signed_word_eqI [of E "fst (m ! j)"] by (auto simp: order_less_le)
  qed
  show ?thesis
  proof (cases "lower_bound m E = 0")
    case True
    then have "find_or_before m E = length m"
      using \<open>map_find m E = length m\<close> by (simp add: find_or_before_def)
    then show ?thesis using ab True by simp
  next
    case False
    then have f: "find_or_before m E = lower_bound m E - 1"
      using \<open>map_find m E = length m\<close> by (simp add: find_or_before_def Let_def)
    have lt: "lower_bound m E - 1 < length m" using False lower_bound_le [of m E] by simp
    have b: "sint (fst (m ! (lower_bound m E - 1))) < sint E"
      using False by (intro lower_bound_below) simp
    have "\<forall>j<length m. sint (fst (m ! j)) \<le> sint E \<longrightarrow> j \<le> lower_bound m E - 1"
    proof (intro allI impI)
      fix j assume j: "j < length m" "sint (fst (m ! j)) \<le> sint E"
      show "j \<le> lower_bound m E - 1"
      proof (rule ccontr)
        assume "\<not> j \<le> lower_bound m E - 1"
        then have "lower_bound m E \<le> j" by simp
        from ab [OF this j(1)] show False using j(2) by simp
      qed
    qed
    then show ?thesis using f lt b by simp
  qed
qed

lemma segments_ok_sorted: "segments_ok m \<Longrightarrow> keys_sorted m"
  unfolding segments_ok_def keys_sorted_def
  by (auto elim: sorted_wrt_mono_rel [rotated])

lemma segments_ok_nth:
  assumes "segments_ok m" "i < length m"
  shows "StartPosition (snd (m ! i)) = fst (m ! i)" "0 \<le> EntryCount (snd (m ! i))"
    "sint (fst (m ! i)) + EntryCount (snd (m ! i)) < 2 ^ 63"
  using assms by (simp_all add: segments_ok_def list_all_length)

lemma segments_ok_apart:
  assumes "segments_ok m" "i < j" "j < length m"
  shows "sint (fst (m ! i)) + EntryCount (snd (m ! i)) \<le> sint (fst (m ! j))"
  using assms by (simp add: segments_ok_def sorted_wrt_iff_nth_less)

lemma sint_add_count:
  fixes p :: Position
  assumes "0 \<le> c" "sint p + c < 2 ^ 63"
  shows "sint (p + word_of_int c) = sint p + c"
proof -
  have "p + word_of_int c = word_of_int (sint p + c)" by simp
  then have "sint (p + word_of_int c) = signed_take_bit 63 (sint p + c)"
    by (simp only: sint_sbintrunc') simp
  moreover have "- (2 ^ 63) \<le> sint p + c" using assms(1) sint_ge [of p] by simp
  ultimately show ?thesis using assms(2) by (simp add: signed_take_bit_int_eq_self)
qed

lemma GetSegment_search:
  "GetSegment T E =
     (let m = SegmentMap T; it = find_or_before m E
      in if it = length m \<or> sint E < sint (fst (m ! it)) then AddSegment T E
         else if sint (StartPosition (snd (m ! it)) + word_of_int (EntryCount (snd (m ! it))))
                   < sint E
         then AddSegment T E
         else (snd (m ! it), T))"
  by (simp add: GetSegment_def find_or_before_def)

lemma AddSegment_new:
  assumes "E \<notin> fst ` set (SegmentMap T)"
  shows "AddSegment T E =
           (AddIndexSegmentToIndexTable T E,
            T\<lparr>SegmentMap := map_insert (SegmentMap T) E (AddIndexSegmentToIndexTable T E)\<rparr>)"
  using assms by (simp add: AddSegment_def map_find_end [symmetric] Let_def)

lemma map_insert_set:
  "k \<notin> fst ` set m \<Longrightarrow> set (map_insert m k v) = insert (k, v) (set m)"
  by (induction m) (auto split: if_splits)


text \<open>C8. In a well-formed table, for every edit unit \<open>E\<close>: \<open>GetSegment\<close> returns the
  segment that contains \<open>E\<close>, leaving the table as it is; when no segment contains
  \<open>E\<close>, it returns a segment for which \<open>E\<close> is the first edit unit beyond its last
  entry, leaving the table as it is; and otherwise it creates a new empty segment that
  starts at \<open>E\<close>, adds it to the table and returns it.\<close>

theorem GetSegment_cases:
  assumes ok: "segments_ok (SegmentMap T)"
  shows "(\<forall>s \<in> snd ` set (SegmentMap T). contains_unit s E \<longrightarrow> GetSegment T E = (s, T)) \<and>
         ((\<forall>s \<in> snd ` set (SegmentMap T). \<not> contains_unit s E)
            \<and> (\<exists>s \<in> snd ` set (SegmentMap T). first_beyond s E)
          \<longrightarrow> (\<exists>s \<in> snd ` set (SegmentMap T). first_beyond s E \<and> GetSegment T E = (s, T))) \<and>
         ((\<forall>s \<in> snd ` set (SegmentMap T). \<not> contains_unit s E \<and> \<not> first_beyond s E)
          \<longrightarrow> (let new = AddIndexSegmentToIndexTable T E
               in GetSegment T E = (new, T\<lparr>SegmentMap := map_insert (SegmentMap T) E new\<rparr>)
                  \<and> StartPosition new = E \<and> EntryCount new = 0 \<and> IndexEntryArray new = []
                  \<and> set (map_insert (SegmentMap T) E new) = insert (E, new) (set (SegmentMap T))))"
proof -
  let ?m = "SegmentMap T"
  let ?it = "find_or_before ?m E"
  have srt: "keys_sorted ?m" using ok by (rule segments_ok_sorted)
  note sp = find_or_before_spec [OF srt, of E]
  have cnt: "\<And>i. i < length ?m \<Longrightarrow>
      sint (StartPosition (snd (?m ! i)) + word_of_int (EntryCount (snd (?m ! i))))
        = sint (fst (?m ! i)) + EntryCount (snd (?m ! i))"
    using segments_ok_nth [OF ok] sint_add_count by simp
  \<comment> \<open>what the code does with the nearest segment at or before the edit unit\<close>
  have prior: "GetSegment T E =
      (if sint E \<le> sint (fst (?m ! ?it)) + EntryCount (snd (?m ! ?it))
       then (snd (?m ! ?it), T) else AddSegment T E)"
    if "?it < length ?m" "sint (fst (?m ! ?it)) \<le> sint E"
    using that cnt [OF that(1)] by (simp add: GetSegment_search Let_def not_less)
  have none: "GetSegment T E = AddSegment T E" if "?it = length ?m"
    using that by (simp add: GetSegment_search Let_def)
  have idx: "\<And>s. s \<in> snd ` set ?m \<Longrightarrow> \<exists>i<length ?m. s = snd (?m ! i)"
    by (auto simp: in_set_conv_nth) (metis snd_conv)
  \<comment> \<open>a segment that starts at or before the edit unit is at or before the nearest one\<close>
  have before: "?it < length ?m \<and> sint (fst (?m ! ?it)) \<le> sint E \<and> i \<le> ?it"
    if "i < length ?m" "sint (fst (?m ! i)) \<le> sint E" for i
    using sp that by auto
  have st: "\<And>i. i < length ?m \<Longrightarrow> StartPosition (snd (?m ! i)) = fst (?m ! i)"
    using segments_ok_nth(1) [OF ok] by simp
  have c1: "GetSegment T E = (s, T)" if s: "s \<in> snd ` set ?m" "contains_unit s E" for s
  proof -
    from idx [OF s(1)] obtain i where i: "i < length ?m" "s = snd (?m ! i)" by blast
    have le: "sint (fst (?m ! i)) \<le> sint E" "sint E < sint (fst (?m ! i)) + EntryCount s"
      using s(2) i st [OF i(1)] by (simp_all add: contains_unit_def)
    from before [OF i(1) le(1)] have b: "?it < length ?m" "sint (fst (?m ! ?it)) \<le> sint E"
      "i \<le> ?it" by simp_all
    have "i = ?it"
    proof (rule ccontr)
      assume "i \<noteq> ?it"
      then have "i < ?it" using b(3) by simp
      from segments_ok_apart [OF ok this b(1)] show False using le(2) b(2) i(2) by simp
    qed
    then show ?thesis using prior [OF b(1,2)] le(2) i(2) by simp
  qed
  have c2: "\<exists>s \<in> snd ` set ?m. first_beyond s E \<and> GetSegment T E = (s, T)"
    if no: "\<forall>s \<in> snd ` set ?m. \<not> contains_unit s E" and ex: "\<exists>s \<in> snd ` set ?m. first_beyond s E"
  proof -
    from ex obtain s where s: "s \<in> snd ` set ?m" "first_beyond s E" by blast
    from idx [OF s(1)] obtain i where i: "i < length ?m" "s = snd (?m ! i)" by blast
    have eq: "sint E = sint (fst (?m ! i)) + EntryCount (snd (?m ! i))"
      using s(2) i st [OF i(1)] by (simp add: first_beyond_def)
    then have "sint (fst (?m ! i)) \<le> sint E" using segments_ok_nth(2) [OF ok i(1)] by simp
    from before [OF i(1) this] have b: "?it < length ?m" "sint (fst (?m ! ?it)) \<le> sint E"
      "i \<le> ?it" by simp_all
    let ?p = "snd (?m ! ?it)"
    have pin: "?p \<in> snd ` set ?m" using b(1) by (metis nth_mem image_eqI)
    then have "\<not> contains_unit ?p E" using no by blast
    then have ge: "sint (fst (?m ! ?it)) + EntryCount ?p \<le> sint E"
      using b(2) st [OF b(1)] by (simp add: contains_unit_def)
    have "sint E \<le> sint (fst (?m ! ?it)) + EntryCount ?p"
    proof (cases "i = ?it")
      case True
      then show ?thesis using eq by simp
    next
      case False
      then have "i < ?it" using b(3) by simp
      from segments_ok_apart [OF ok this b(1)] have "sint E \<le> sint (fst (?m ! ?it))"
        using eq by simp
      then show ?thesis using segments_ok_nth(2) [OF ok b(1)] by simp
    qed
    then have "first_beyond ?p E" "GetSegment T E = (?p, T)"
      using ge prior [OF b(1,2)] st [OF b(1)] by (simp_all add: first_beyond_def)
    then show ?thesis using pin by blast
  qed
  have c3: "let new = AddIndexSegmentToIndexTable T E
            in GetSegment T E = (new, T\<lparr>SegmentMap := map_insert ?m E new\<rparr>)
               \<and> StartPosition new = E \<and> EntryCount new = 0 \<and> IndexEntryArray new = []
               \<and> set (map_insert ?m E new) = insert (E, new) (set ?m)"
    if no: "\<forall>s \<in> snd ` set ?m. \<not> contains_unit s E \<and> \<not> first_beyond s E"
  proof -
    have nk: "E \<notin> fst ` set ?m"
    proof
      assume "E \<in> fst ` set ?m"
      then obtain j where j: "j < length ?m" "fst (?m ! j) = E"
        by (auto simp: in_set_conv_nth)
      let ?s = "snd (?m ! j)"
      have "?s \<in> snd ` set ?m" using j(1) by (metis nth_mem image_eqI)
      then have n: "\<not> contains_unit ?s E" "\<not> first_beyond ?s E" using no by blast+
      have "0 \<le> EntryCount ?s" using segments_ok_nth(2) [OF ok j(1)] .
      then show False using n st [OF j(1)] j(2)
        by (auto simp: contains_unit_def first_beyond_def)
    qed
    have "GetSegment T E = AddSegment T E"
    proof (cases "?it = length ?m")
      case True
      then show ?thesis by (rule none)
    next
      case False
      then have b: "?it < length ?m" "sint (fst (?m ! ?it)) \<le> sint E" using sp by auto
      let ?p = "snd (?m ! ?it)"
      have "?p \<in> snd ` set ?m" using b(1) by (metis nth_mem image_eqI)
      then have "\<not> contains_unit ?p E" "\<not> first_beyond ?p E" using no by blast+
      then have "\<not> sint E \<le> sint (fst (?m ! ?it)) + EntryCount ?p"
        using b(2) st [OF b(1)] by (auto simp: contains_unit_def first_beyond_def)
      then show ?thesis using prior [OF b] by simp
    qed
    then show ?thesis
      using AddSegment_new [OF nk] map_insert_set [OF nk]
      by (simp add: Let_def AddIndexSegmentToIndexTable_def new_IndexSegment_def)
  qed
  show ?thesis using c1 c2 c3 by blast
qed

theorem GetSegment_cases_witness:
  "segments_ok (SegmentMap example_VBR_table)
   \<and> contains_unit example_segment 1
   \<and> GetSegment example_VBR_table 1 = (example_segment, example_VBR_table)
   \<and> \<not> contains_unit example_segment 3 \<and> first_beyond example_segment 3
   \<and> GetSegment example_VBR_table 3 = (example_segment, example_VBR_table)
   \<and> \<not> contains_unit example_segment 10 \<and> \<not> first_beyond example_segment 10
   \<and> GetSegment example_VBR_table 10
        = (AddIndexSegmentToIndexTable example_VBR_table 10,
           example_VBR_table\<lparr>SegmentMap :=
             [(0, example_segment), (10, AddIndexSegmentToIndexTable example_VBR_table 10)]\<rparr>)"
proof -
  have m: "SegmentMap example_VBR_table = [(0, example_segment)]"
    by (simp add: example_VBR_table_def example_segment_def)
  have s: "StartPosition example_segment = 0" "EntryCount example_segment = 3"
    by (simp_all add: example_VBR_table_def example_segment_def)
  have ok: "segments_ok (SegmentMap example_VBR_table)"
    by (simp add: m segments_ok_def s)
  have p: "contains_unit example_segment 1" "\<not> contains_unit example_segment 3"
    "first_beyond example_segment 3" "\<not> contains_unit example_segment 10"
    "\<not> first_beyond example_segment 10"
    by (simp_all add: contains_unit_def first_beyond_def s)
  have a: "GetSegment example_VBR_table 1 = (example_segment, example_VBR_table)"
    using GetSegment_cases [OF ok, of 1] p by (simp add: m)
  have b: "GetSegment example_VBR_table 3 = (example_segment, example_VBR_table)"
    using GetSegment_cases [OF ok, of 3] p by (simp add: m)
  have c: "GetSegment example_VBR_table 10
        = (AddIndexSegmentToIndexTable example_VBR_table 10,
           example_VBR_table\<lparr>SegmentMap :=
             [(0, example_segment), (10, AddIndexSegmentToIndexTable example_VBR_table 10)]\<rparr>)"
    using GetSegment_cases [OF ok, of 10] p by (simp add: m Let_def)
  show ?thesis using ok p a b c by simp
qed

section \<open>Updating the stream offset of an entry\<close>

lemma Update_search:
  "Update T E off =
     (let m = SegmentMap T; it = find_or_before m E
      in if it = length m \<or> sint E < sint (fst (m ! it)) then Some T
         else map_option (\<lambda>Segment. T\<lparr>SegmentMap := m[it := (fst (m ! it), Segment)]\<rparr>)
                (IndexSegment_Update (IndexEntrySize T) (snd (m ! it)) E off))"
  by (cases "SegmentMap T") (simp_all add: Update_def find_or_before_def Let_def)

lemma Update_same_segment:
  assumes "IndexSegment_Update (IndexEntrySize T) (snd (SegmentMap T ! it)) E off
             = Some (snd (SegmentMap T ! it))"
  shows "map_option (\<lambda>Segment. T\<lparr>SegmentMap := (SegmentMap T)[it := (fst (SegmentMap T ! it), Segment)]\<rparr>)
           (IndexSegment_Update (IndexEntrySize T) (snd (SegmentMap T ! it)) E off) = Some T"
  using assms by simp

lemma sint_last_entry:
  fixes p :: Position
  assumes "- (2 ^ 63) \<le> sint p + c - 1" "sint p + c - 1 < 2 ^ 63"
  shows "sint (p + word_of_int c - 1) = sint p + c - 1"
proof -
  have "p + word_of_int c - 1 = word_of_int (sint p + c - 1)" by simp
  then have "sint (p + word_of_int c - 1) = signed_take_bit 63 (sint p + c - 1)"
    by (simp only: sint_sbintrunc') simp
  then show ?thesis using assms by (simp add: signed_take_bit_int_eq_self)
qed

lemma sint_entry_offset:
  fixes E p :: Position
  assumes "sint p \<le> sint E" "0 \<le> ies" "(sint E - sint p) * ies < 2 ^ 63"
  shows "sint ((E - p) * word_of_int ies) = (sint E - sint p) * ies"
proof -
  have "(E - p) * word_of_int ies = word_of_int ((sint E - sint p) * ies)" by simp
  then have "sint ((E - p) * word_of_int ies) = signed_take_bit 63 ((sint E - sint p) * ies)"
    by (simp only: sint_sbintrunc') simp
  moreover have "0 \<le> (sint E - sint p) * ies" using assms(1,2) by simp
  ultimately show ?thesis using assms(3) by (simp add: signed_take_bit_int_eq_self)
qed

lemma write_bytes_frame:
  assumes "write_bytes D off bs = Some D'"
  shows "length D' = length D \<and> take (length bs) (drop (nat off) D') = bs
         \<and> (\<forall>j<length D. j < nat off \<or> nat off + length bs \<le> j \<longrightarrow> D' ! j = D ! j)"
proof -
  from assms have b: "0 \<le> off" "nat off + length bs \<le> length D"
    and d: "D' = take (nat off) D @ bs @ drop (nat off + length bs) D"
    by (auto simp: write_bytes_def split: if_splits)
  have "\<forall>j<length D. j < nat off \<or> nat off + length bs \<le> j \<longrightarrow> D' ! j = D ! j"
  proof (intro allI impI)
    fix j assume j: "j < length D" "j < nat off \<or> nat off + length bs \<le> j"
    show "D' ! j = D ! j"
    proof (cases "j < nat off")
      case True
      then show ?thesis using b d by (simp add: nth_append)
    next
      case False
      then have ge: "nat off + length bs \<le> j" using j(2) by simp
      then have "D' ! j = (bs @ drop (nat off + length bs) D) ! (j - nat off)"
        using b d by (simp add: nth_append)
      also have "\<dots> = drop (nat off + length bs) D ! (j - nat off - length bs)"
      proof -
        have "\<not> j - nat off < length bs" using ge by linarith
        then show ?thesis by (simp only: nth_append if_False)
      qed
      also have "\<dots> = D ! j" using ge j(1) b by simp
      finally show ?thesis .
    qed
  qed
  then show ?thesis using b d by simp
qed

lemma find_or_before_nearest:
  assumes "keys_sorted m" "nearest_before m E it"
  shows "find_or_before m E = it"
proof -
  from assms(2) have n: "it < length m" "sint (fst (m ! it)) \<le> sint E"
    "\<And>j. j < length m \<Longrightarrow> sint (fst (m ! j)) \<le> sint E \<Longrightarrow> j \<le> it"
    by (simp_all add: nearest_before_def)
  from find_or_before_spec [OF assms(1), of E] n(1,2)
  have f: "find_or_before m E < length m" "sint (fst (m ! find_or_before m E)) \<le> sint E"
    "it \<le> find_or_before m E" by auto
  from n(3) [OF f(1,2)] f(3) show ?thesis by simp
qed

lemma find_or_before_none:
  assumes "keys_sorted m" "\<forall>a \<in> set m. sint E < sint (fst a)"
  shows "find_or_before m E = length m"
proof (rule ccontr)
  assume "find_or_before m E \<noteq> length m"
  with find_or_before_spec [OF assms(1), of E]
  have f: "find_or_before m E < length m" "sint (fst (m ! find_or_before m E)) \<le> sint E"
    by auto
  then have "m ! find_or_before m E \<in> set m" by simp
  then show False using assms(2) f(2) by fastforce
qed

text \<open>C10. \<open>IndexTable::Update\<close> changes nothing when the edit unit lies before every
  segment, or outside the range from \<open>StartPosition\<close> to
  \<open>StartPosition + EntryCount - 1\<close> of the located segment (the last one that starts at
  or before it). Within that range, in a segment whose entry array holds \<open>EntryCount\<close>
  entries of \<open>IndexEntrySize\<close> bytes, it changes only the entry array of that segment,
  and there only the 8 bytes of the \<open>StreamOffset\<close> field, 3 bytes into the entry of the
  edit unit: they become the new stream offset, every other byte of the array keeps its
  value, and every other segment, every other member of the segment and of the table is
  as before.\<close>

theorem Update_only_StreamOffset:
  assumes srt: "keys_sorted (SegmentMap T)"
  shows "((\<forall>a \<in> set (SegmentMap T). sint E < sint (fst a)) \<longrightarrow> Update T E off = Some T) \<and>
         (\<forall>it. nearest_before (SegmentMap T) E it \<longrightarrow>
            (let k = fst (SegmentMap T ! it); s = snd (SegmentMap T ! it);
                 D = IndexEntryArray s; first = sint (StartPosition s);
                 last = first + EntryCount s - 1; ies = IndexEntrySize T;
                 field = nat ((sint E - first) * ies) + 3
             in - (2 ^ 63) \<le> last \<and> last < 2 ^ 63 \<longrightarrow>
                ((sint E < first \<or> last < sint E) \<longrightarrow> Update T E off = Some T) \<and>
                (first \<le> sint E \<and> sint E \<le> last \<and> 11 \<le> ies \<and> EntryCount s * ies < 2 ^ 63
                   \<and> length D = nat (EntryCount s * ies) \<longrightarrow>
                 (\<exists>D'. Update T E off
                          = Some (T\<lparr>SegmentMap :=
                                    (SegmentMap T)[it := (k, s\<lparr>IndexEntryArray := D'\<rparr>)]\<rparr>)
                      \<and> length D' = length D
                      \<and> take 8 (drop field D') = PutU64 off
                      \<and> (\<forall>j<length D. j < field \<or> field + 8 \<le> j \<longrightarrow> D' ! j = D ! j)))))"
proof (intro conjI allI impI)
  let ?m = "SegmentMap T"
  {
    assume "\<forall>a \<in> set ?m. sint E < sint (fst a)"
    from find_or_before_none [OF srt this] show "Update T E off = Some T"
      by (simp add: Update_search Let_def)
  }
  fix it assume nb: "nearest_before ?m E it"
  let ?k = "fst (?m ! it)" and ?s = "snd (?m ! it)"
  let ?D = "IndexEntryArray ?s" and ?first = "sint (StartPosition ?s)"
  let ?last = "?first + EntryCount ?s - 1" and ?ies = "IndexEntrySize T"
  let ?field = "nat ((sint E - ?first) * ?ies) + 3"
  have fob: "find_or_before ?m E = it" by (rule find_or_before_nearest [OF srt nb])
  have it: "it < length ?m" "sint ?k \<le> sint E" using nb by (simp_all add: nearest_before_def)
  have upd: "Update T E off =
      map_option (\<lambda>Segment. T\<lparr>SegmentMap := ?m[it := (?k, Segment)]\<rparr>)
        (IndexSegment_Update ?ies ?s E off)"
    using it fob by (simp add: Update_search Let_def not_less)
  have main: "- (2 ^ 63) \<le> ?last \<and> ?last < 2 ^ 63 \<longrightarrow>
      ((sint E < ?first \<or> ?last < sint E) \<longrightarrow> Update T E off = Some T) \<and>
      (?first \<le> sint E \<and> sint E \<le> ?last \<and> 11 \<le> ?ies \<and> EntryCount ?s * ?ies < 2 ^ 63
         \<and> length ?D = nat (EntryCount ?s * ?ies) \<longrightarrow>
       (\<exists>D'. Update T E off = Some (T\<lparr>SegmentMap := ?m[it := (?k, ?s\<lparr>IndexEntryArray := D'\<rparr>)]\<rparr>)
            \<and> length D' = length ?D
            \<and> take 8 (drop ?field D') = PutU64 off
            \<and> (\<forall>j<length ?D. j < ?field \<or> ?field + 8 \<le> j \<longrightarrow> D' ! j = ?D ! j)))"
  proof (intro impI conjI)
    assume r: "- (2 ^ 63) \<le> ?last \<and> ?last < 2 ^ 63"
    then have last: "sint (StartPosition ?s + word_of_int (EntryCount ?s) - 1) = ?last"
      by (intro sint_last_entry) simp_all
    {
      assume "sint E < ?first \<or> ?last < sint E"
      then have "IndexSegment_Update ?ies ?s E off = Some ?s"
        using last by (auto simp: IndexSegment_Update_def)
      then show "Update T E off = Some T"
        unfolding upd by (rule Update_same_segment)
    }
    assume a: "?first \<le> sint E \<and> sint E \<le> ?last \<and> 11 \<le> ?ies \<and> EntryCount ?s * ?ies < 2 ^ 63
         \<and> length ?D = nat (EntryCount ?s * ?ies)"
    let ?e = "sint E - ?first"
    have e: "0 \<le> ?e" "?e + 1 \<le> EntryCount ?s" using a by simp_all
    have "(?e + 1) * ?ies \<le> EntryCount ?s * ?ies" using e(2) a by (intro mult_right_mono) simp_all
    then have le: "?e * ?ies + ?ies \<le> EntryCount ?s * ?ies" by (simp add: algebra_simps)
    have nn: "0 \<le> ?e * ?ies" using e(1) a by simp
    have ptr: "sint ((E - StartPosition ?s) * word_of_int ?ies) = ?e * ?ies"
      using a le by (intro sint_entry_offset) simp_all
    have su: "IndexSegment_Update ?ies ?s E off =
        map_option (\<lambda>Data. ?s\<lparr>IndexEntryArray := Data\<rparr>)
          (write_bytes ?D (?e * ?ies + 3) (PutU64 off))"
      using a last ptr by (simp add: IndexSegment_Update_def Let_def)
    have l8: "length (PutU64 off) = 8" by (simp add: PutU64_def)
    have fld: "nat (?e * ?ies + 3) = ?field" using nn by (simp add: nat_add_distrib)
    have len: "length ?D = nat (EntryCount ?s * ?ies)" and i11: "11 \<le> ?ies" using a by simp_all
    have "nat (?e * ?ies + 3) + 8 \<le> nat (EntryCount ?s * ?ies)" using le nn i11 by linarith
    then have "nat (?e * ?ies + 3) + length (PutU64 off) \<le> length ?D"
      by (simp only: len l8)
    then obtain D' where D': "write_bytes ?D (?e * ?ies + 3) (PutU64 off) = Some D'"
      using nn by (auto simp: write_bytes_def)
    from write_bytes_frame [OF D'] have fr: "length D' = length ?D"
      "take 8 (drop ?field D') = PutU64 off"
      "\<forall>j<length ?D. j < ?field \<or> ?field + 8 \<le> j \<longrightarrow> D' ! j = ?D ! j"
      by (simp_all add: l8 fld)
    have "Update T E off = Some (T\<lparr>SegmentMap := ?m[it := (?k, ?s\<lparr>IndexEntryArray := D'\<rparr>)]\<rparr>)"
      by (simp add: upd su D')
    then show "\<exists>D'. Update T E off = Some (T\<lparr>SegmentMap := ?m[it := (?k, ?s\<lparr>IndexEntryArray := D'\<rparr>)]\<rparr>)
            \<and> length D' = length ?D
            \<and> take 8 (drop ?field D') = PutU64 off
            \<and> (\<forall>j<length ?D. j < ?field \<or> ?field + 8 \<le> j \<longrightarrow> D' ! j = ?D ! j)"
      using fr by blast
  qed
  then show "let k = fst (?m ! it); s = snd (?m ! it);
                 D = IndexEntryArray s; first = sint (StartPosition s);
                 last = first + EntryCount s - 1; ies = IndexEntrySize T;
                 field = nat ((sint E - first) * ies) + 3
             in - (2 ^ 63) \<le> last \<and> last < 2 ^ 63 \<longrightarrow>
                ((sint E < first \<or> last < sint E) \<longrightarrow> Update T E off = Some T) \<and>
                (first \<le> sint E \<and> sint E \<le> last \<and> 11 \<le> ies \<and> EntryCount s * ies < 2 ^ 63
                   \<and> length D = nat (EntryCount s * ies) \<longrightarrow>
                 (\<exists>D'. Update T E off
                          = Some (T\<lparr>SegmentMap :=
                                    (SegmentMap T)[it := (k, s\<lparr>IndexEntryArray := D'\<rparr>)]\<rparr>)
                      \<and> length D' = length D
                      \<and> take 8 (drop field D') = PutU64 off
                      \<and> (\<forall>j<length D. j < field \<or> field + 8 \<le> j \<longrightarrow> D' ! j = D ! j)))"
    unfolding Let_def .
qed


theorem Update_only_StreamOffset_witness:
  "Update example_VBR_table (- 1) 0x1234 = Some example_VBR_table
   \<and> Update example_VBR_table 7 0x1234 = Some example_VBR_table
   \<and> map_option (\<lambda>T'. IndexEntryArray (snd (hd (SegmentMap T'))))
        (Update example_VBR_table 1 0x1234)
       = Some [0, 0, 0x80, 0, 0, 0, 0, 0, 0, 0, 0,
               1, 0xFF, 0, 0, 0, 0, 0, 0, 0, 0x12, 0x34,
               0xFF, 0xFE, 0, 0, 0, 0, 0, 0, 0, 0x20, 0]
   \<and> map_option (\<lambda>T'. take 8 (drop 14 (IndexEntryArray (snd (hd (SegmentMap T'))))))
        (Update example_VBR_table 1 0x1234)
       = Some (PutU64 0x1234)"
proof -
  have m: "SegmentMap example_VBR_table = [(0, example_segment)]"
    by (simp add: example_VBR_table_def example_segment_def)
  have s: "StartPosition example_segment = 0" "EntryCount example_segment = 3"
    "IndexEntrySize example_VBR_table = 11" "length (IndexEntryArray example_segment) = 33"
    by (simp_all add: example_VBR_table_def example_segment_def)
  have srt: "keys_sorted (SegmentMap example_VBR_table)" by (simp add: m keys_sorted_def)
  have n1: "nearest_before (SegmentMap example_VBR_table) 1 0"
    and n7: "nearest_before (SegmentMap example_VBR_table) 7 0"
    by (simp_all add: m nearest_before_def)
  have b: "\<forall>a \<in> set (SegmentMap example_VBR_table). sint (- 1 :: Position) < sint (fst a)"
    by (simp add: m)
  note law = Update_only_StreamOffset [OF srt, of _ "0x1234"]
  have u0: "Update example_VBR_table (- 1) 0x1234 = Some example_VBR_table"
    using law [of "- 1"] b by blast
  have u7: "Update example_VBR_table 7 0x1234 = Some example_VBR_table"
    using law [of 7, THEN conjunct2, rule_format, OF n7] by (simp add: m s Let_def)
  from law [of 1, THEN conjunct2, rule_format, OF n1]
  obtain D' where D': "Update example_VBR_table 1 0x1234
        = Some (example_VBR_table\<lparr>SegmentMap :=
                  [(0, example_segment\<lparr>IndexEntryArray := D'\<rparr>)]\<rparr>)"
      "take 8 (drop 14 D') = PutU64 0x1234"
    by (auto simp: m s Let_def)
  have u1: "map_option (\<lambda>T'. take 8 (drop 14 (IndexEntryArray (snd (hd (SegmentMap T'))))))
        (Update example_VBR_table 1 0x1234) = Some (PutU64 0x1234)"
    using D' by simp
  have e1: "map_option (\<lambda>T'. IndexEntryArray (snd (hd (SegmentMap T'))))
        (Update example_VBR_table 1 0x1234)
       = Some [0, 0, 0x80, 0, 0, 0, 0, 0, 0, 0, 0,
               1, 0xFF, 0, 0, 0, 0, 0, 0, 0, 0x12, 0x34,
               0xFF, 0xFE, 0, 0, 0, 0, 0, 0, 0, 0x20, 0]"
    by (simp add: Update_def example_VBR_table_def IndexSegment_Update_def write_bytes_def
        PutU64_def Let_def)
  show ?thesis using u0 u7 u1 e1 by simp
qed

section \<open>The format of a manager is fixed by MakeIndex\<close>

lemma ThisEntry_for_FormatFixed:
  "ThisEntry_for E M = (e, held, M') \<Longrightarrow> FormatFixed M' = FormatFixed M"
  by (auto simp: ThisEntry_for_def Let_def split: option.splits prod.splits)

lemma store_entry_FormatFixed: "FormatFixed (store_entry E held e M) = FormatFixed M"
  by (simp add: store_entry_def)

lemma Log_FormatFixed: "FormatFixed (Log E M) = FormatFixed M"
  by (simp add: Log_def)

lemma AddEditUnit_FormatFixed: "FormatFixed M \<Longrightarrow> FormatFixed (AddEditUnit s E k f M)"
proof (cases "DataIsCBR M")
  case True
  assume "FormatFixed M"
  then show ?thesis using True by (simp add: AddEditUnit_def)
next
  case False
  assume "FormatFixed M"
  obtain e held M' where t: "ThisEntry_for (E - SubRangeOffset M) (M\<lparr>FormatFixed := True\<rparr>) = (e, held, M')"
    by (metis prod_cases3)
  then have "FormatFixed M'" using ThisEntry_for_FormatFixed [OF t] by simp
  then show ?thesis using False t
    by (simp add: AddEditUnit_def Let_def Log_FormatFixed store_entry_FormatFixed)
qed

lemma SetOffset_FormatFixed:
  "FormatFixed M \<Longrightarrow> SetOffset s E off k f M = Some M' \<Longrightarrow> FormatFixed M'"
proof (cases "DataIsCBR M")
  case True
  assume "FormatFixed M" "SetOffset s E off k f M = Some M'"
  then show ?thesis using True by (simp add: SetOffset_def)
next
  case False
  assume a: "FormatFixed M" "SetOffset s E off k f M = Some M'"
  obtain e held M1 where t: "ThisEntry_for E (M\<lparr>FormatFixed := True\<rparr>) = (e, held, M1)"
    by (metis prod_cases3)
  then have "FormatFixed M1" using ThisEntry_for_FormatFixed [OF t] by simp
  then show ?thesis using False t a(2)
    by (auto simp: SetOffset_def Let_def Log_FormatFixed store_entry_FormatFixed
        split: if_splits)
qed

lemma SetTemporalOffset_FormatFixed: "FormatFixed (SetTemporalOffset E off M) = FormatFixed M"
  by (simp add: SetTemporalOffset_def Let_def split: option.splits)

lemma SetKeyOffset_FormatFixed: "FormatFixed (SetKeyOffset E off M) = FormatFixed M"
  by (simp add: SetKeyOffset_def Let_def split: option.splits)

lemma SetFlags_FormatFixed: "FormatFixed (SetFlags E f M) = FormatFixed M"
  by (simp add: SetFlags_def Let_def split: option.splits)

lemma MakeIndex_FormatFixed:
  "MakeIndex NewTable DefineDeltaArray M = Some (Tab, M') \<Longrightarrow> M' = M\<lparr>FormatFixed := True\<rparr>"
  by (auto simp: MakeIndex_def Let_def split: option.splits)

lemma AddSubStream_fixed: "FormatFixed M \<Longrightarrow> AddSubStream p e M = Some (0, M)"
  by (simp add: AddSubStream_def)

lemma call_FormatFixed: "FormatFixed M \<Longrightarrow> call c M = Some M' \<Longrightarrow> FormatFixed M'"
proof (cases c)
  case (CallAddSubStream p e)
  assume "FormatFixed M" "call c M = Some M'"
  then show ?thesis using CallAddSubStream by (auto simp: AddSubStream_fixed)
next
  case (CallAddEditUnit s u k f)
  assume "FormatFixed M" "call c M = Some M'"
  then show ?thesis using CallAddEditUnit AddEditUnit_FormatFixed by auto
next
  case (CallSetOffset s u off k f)
  assume "FormatFixed M" "call c M = Some M'"
  then show ?thesis using CallSetOffset SetOffset_FormatFixed by auto
next
  case (CallSetTemporalOffset u off)
  assume "FormatFixed M" "call c M = Some M'"
  then show ?thesis using CallSetTemporalOffset by (auto simp: SetTemporalOffset_FormatFixed)
next
  case (CallSetKeyOffset u off)
  assume "FormatFixed M" "call c M = Some M'"
  then show ?thesis using CallSetKeyOffset by (auto simp: SetKeyOffset_FormatFixed)
next
  case (CallSetFlags u f)
  assume "FormatFixed M" "call c M = Some M'"
  then show ?thesis using CallSetFlags by (auto simp: SetFlags_FormatFixed)
next
  case (CallMakeIndex NewTable DefineDeltaArray)
  assume "FormatFixed M" "call c M = Some M'"
  then show ?thesis using CallMakeIndex MakeIndex_FormatFixed by fastforce
qed

lemma calls_FormatFixed: "FormatFixed M \<Longrightarrow> calls cs M = Some M' \<Longrightarrow> FormatFixed M'"
proof (induction cs arbitrary: M)
  case Nil
  then show ?case by simp
next
  case (Cons c cs)
  then obtain M1 where "call c M = Some M1" "calls cs M1 = Some M'"
    by (auto split: option.splits)
  then show ?case using Cons.IH call_FormatFixed [OF Cons.prems(1)] by blast
qed

text \<open>C7. After \<open>MakeIndex\<close> has been called on a manager, and whatever calls follow,
  every call of \<open>AddSubStream\<close> returns 0 and leaves the manager as it is: its stream
  count, its \<open>PosTableList\<close>, its \<open>ElementSizeList\<close> and every other member.\<close>

theorem AddSubStream_after_MakeIndex:
  assumes "MakeIndex NewTable DefineDeltaArray M = Some (Tab, M1)"
    and "calls cs M1 = Some M2"
  shows "AddSubStream PosTabIndex ElementSize M2 = Some (0, M2)"
proof -
  have "FormatFixed M1" using MakeIndex_FormatFixed [OF assms(1)] by simp
  then have "FormatFixed M2" using assms(2) by (rule calls_FormatFixed)
  then show ?thesis by (rule AddSubStream_fixed)
qed

theorem AddSubStream_after_MakeIndex_witness:
  "map_option
     (\<lambda>(Tab, M1).
        map_option (\<lambda>M2. AddSubStream (- 1) 0 M2 = Some (0, M2))
          (calls [CallAddEditUnit 0 5 0 0x80, CallSetTemporalOffset 5 0] M1))
     (MakeIndex example_VBR_table example_DefineDeltaArray example_manager)
   = Some (Some True)"
proof -
  have "set_PosTableIndexes 1 (PosTableList example_manager)
          [\<lparr>PosTableIndex = 0, Slice = 0, ElementDelta = [0, 0, 0, 0]\<rparr>] \<noteq> None"
    by (simp add: set_PosTableIndexes_def)
  then obtain Tab M1 where m: "MakeIndex example_VBR_table example_DefineDeltaArray example_manager
      = Some (Tab, M1)"
    by (auto simp: MakeIndex_def example_DefineDeltaArray_def Let_def example_manager_def
        IndexManager_new_def)
  obtain M2 where c: "calls [CallAddEditUnit 0 5 0 0x80, CallSetTemporalOffset 5 0] M1 = Some M2"
    by simp
  have "AddSubStream (- 1) 0 M2 = Some (0, M2)"
    by (rule AddSubStream_after_MakeIndex [OF m c])
  then show ?thesis using m c by simp
qed

section \<open>The sub-range offset\<close>

lemma provisional_at_SubRangeOffset [simp]:
  "provisional_at (M\<lparr>SubRangeOffset := d\<rparr>) E = provisional_at M E"
  by (simp add: provisional_at_def split: option.splits)

lemma new_IndexData_SubRangeOffset [simp]:
  "new_IndexData (M\<lparr>SubRangeOffset := d\<rparr>) = new_IndexData M"
  by (simp add: new_IndexData_def)

lemma ThisEntry_for_SubRangeOffset:
  "ThisEntry_for E (M\<lparr>SubRangeOffset := d\<rparr>)
     = (case ThisEntry_for E M of (e, held, M') \<Rightarrow> (e, held, M'\<lparr>SubRangeOffset := d\<rparr>))"
  by (simp add: ThisEntry_for_def Let_def new_IndexData_def split: option.splits prod.splits)

lemma store_entry_SubRangeOffset:
  "store_entry E held e (M\<lparr>SubRangeOffset := d\<rparr>) = (store_entry E held e M)\<lparr>SubRangeOffset := d\<rparr>"
  by (simp add: store_entry_def)

lemma Log_SubRangeOffset:
  "Log E (M\<lparr>SubRangeOffset := d\<rparr>) = (Log E M)\<lparr>SubRangeOffset := d\<rparr>"
  by (simp add: Log_def)

lemma set_per_entry_SubRangeOffset:
  "set_per_entry (M\<lparr>SubRangeOffset := d\<rparr>) s k f e = set_per_entry M s k f e"
  by (simp add: set_per_entry_def)

lemma ThisEntry_for_MasterStream:
  "ThisEntry_for E M = (e, held, M') \<Longrightarrow> MasterStream M' = MasterStream M"
  by (auto simp: ThisEntry_for_def Let_def split: option.splits prod.splits)


lemma SubRangeOffset_FormatFixed_commute:
  "M\<lparr>SubRangeOffset := d, FormatFixed := b\<rparr> = M\<lparr>FormatFixed := b, SubRangeOffset := d\<rparr>"
  by (cases M) simp

lemma AddEditUnit_SubRangeOffset:
  "AddEditUnit s E k f (M\<lparr>SubRangeOffset := d\<rparr>)
     = (AddEditUnit s (E - d) k f (M\<lparr>SubRangeOffset := 0\<rparr>))\<lparr>SubRangeOffset := d\<rparr>"
proof (cases "DataIsCBR M")
  case True
  then show ?thesis by (simp add: AddEditUnit_def)
next
  case False
  obtain e held M' where t: "ThisEntry_for (E - d) (M\<lparr>FormatFixed := True\<rparr>) = (e, held, M')"
    by (metis prod_cases3)
  have a: "ThisEntry_for (E - d) (M\<lparr>FormatFixed := True, SubRangeOffset := d\<rparr>)
             = (e, held, M'\<lparr>SubRangeOffset := d\<rparr>)"
    using ThisEntry_for_SubRangeOffset [where E = "E - d" and M = "M\<lparr>FormatFixed := True\<rparr>" and d = d] t by simp
  have b: "ThisEntry_for (E - d) (M\<lparr>FormatFixed := True, SubRangeOffset := 0\<rparr>)
             = (e, held, M'\<lparr>SubRangeOffset := 0\<rparr>)"
    using ThisEntry_for_SubRangeOffset [where E = "E - d" and M = "M\<lparr>FormatFixed := True\<rparr>" and d = 0] t by simp
  show ?thesis
    using False a b
    by (simp add: AddEditUnit_def Let_def store_entry_SubRangeOffset Log_SubRangeOffset
        set_per_entry_SubRangeOffset SubRangeOffset_FormatFixed_commute)
qed

lemma SetTemporalOffset_SubRangeOffset:
  "SetTemporalOffset E off (M\<lparr>SubRangeOffset := d\<rparr>)
     = (SetTemporalOffset (E - d) off (M\<lparr>SubRangeOffset := 0\<rparr>))\<lparr>SubRangeOffset := d\<rparr>"
  by (simp add: SetTemporalOffset_def Let_def provisional_at_def split: option.splits)

lemma SetKeyOffset_SubRangeOffset:
  "SetKeyOffset E off (M\<lparr>SubRangeOffset := d\<rparr>)
     = (SetKeyOffset (E - d) off (M\<lparr>SubRangeOffset := 0\<rparr>))\<lparr>SubRangeOffset := d\<rparr>"
  by (simp add: SetKeyOffset_def Let_def provisional_at_def split: option.splits)

lemma SetFlags_SubRangeOffset:
  "SetFlags E f (M\<lparr>SubRangeOffset := d\<rparr>)
     = (SetFlags (E - d) f (M\<lparr>SubRangeOffset := 0\<rparr>))\<lparr>SubRangeOffset := d\<rparr>"
  by (simp add: SetFlags_def Let_def provisional_at_def split: option.splits)

lemma SetOffset_SubRangeOffset:
  "SetOffset s E off k f (M\<lparr>SubRangeOffset := d\<rparr>)
     = map_option (\<lambda>M'. M'\<lparr>SubRangeOffset := d\<rparr>) (SetOffset s E off k f (M\<lparr>SubRangeOffset := 0\<rparr>))"
proof (cases "DataIsCBR M")
  case True
  then show ?thesis by (simp add: SetOffset_def)
next
  case False
  obtain e held M' where t: "ThisEntry_for E (M\<lparr>FormatFixed := True\<rparr>) = (e, held, M')"
    by (metis prod_cases3)
  have a: "ThisEntry_for E (M\<lparr>FormatFixed := True, SubRangeOffset := d\<rparr>)
             = (e, held, M'\<lparr>SubRangeOffset := d\<rparr>)"
    using ThisEntry_for_SubRangeOffset [where E = "E" and M = "M\<lparr>FormatFixed := True\<rparr>" and d = d] t by simp
  have b: "ThisEntry_for E (M\<lparr>FormatFixed := True, SubRangeOffset := 0\<rparr>)
             = (e, held, M'\<lparr>SubRangeOffset := 0\<rparr>)"
    using ThisEntry_for_SubRangeOffset [where E = "E" and M = "M\<lparr>FormatFixed := True\<rparr>" and d = 0] t by simp
  show ?thesis
    using False a b
    by (simp add: SetOffset_def Let_def store_entry_SubRangeOffset Log_SubRangeOffset
        set_per_entry_SubRangeOffset SubRangeOffset_FormatFixed_commute)
qed


text \<open>C5 (as amended). \<open>AddEditUnit\<close> (and \<open>OfferEditUnit\<close>), \<open>SetTemporalOffset\<close>,
  \<open>SetKeyOffset\<close> and \<open>SetFlags\<close> subtract \<open>SubRangeOffset\<close> from the edit unit they are
  given: with a sub-range offset \<open>d\<close> they do at \<open>E\<close> what they do at \<open>E - d\<close> without
  one. \<open>SetOffset\<close> (and \<open>OfferOffset\<close>) use the edit unit as it is given, already
  relative to the sub-range: what they do does not depend on \<open>SubRangeOffset\<close>.\<close>

theorem SubRangeOffset_subtracted:
  "AddEditUnit s E k f M
     = (AddEditUnit s (E - SubRangeOffset M) k f (M\<lparr>SubRangeOffset := 0\<rparr>))
         \<lparr>SubRangeOffset := SubRangeOffset M\<rparr>
   \<and> OfferEditUnit s E k f M
     = (True, (AddEditUnit s (E - SubRangeOffset M) k f (M\<lparr>SubRangeOffset := 0\<rparr>))
                \<lparr>SubRangeOffset := SubRangeOffset M\<rparr>)
   \<and> SetTemporalOffset E toff M
     = (SetTemporalOffset (E - SubRangeOffset M) toff (M\<lparr>SubRangeOffset := 0\<rparr>))
         \<lparr>SubRangeOffset := SubRangeOffset M\<rparr>
   \<and> SetKeyOffset E koff M
     = (SetKeyOffset (E - SubRangeOffset M) koff (M\<lparr>SubRangeOffset := 0\<rparr>))
         \<lparr>SubRangeOffset := SubRangeOffset M\<rparr>
   \<and> SetFlags E f M
     = (SetFlags (E - SubRangeOffset M) f (M\<lparr>SubRangeOffset := 0\<rparr>))
         \<lparr>SubRangeOffset := SubRangeOffset M\<rparr>
   \<and> SetOffset s E off k f M
     = map_option (\<lambda>M'. M'\<lparr>SubRangeOffset := SubRangeOffset M\<rparr>)
         (SetOffset s E off k f (M\<lparr>SubRangeOffset := 0\<rparr>))
   \<and> OfferOffset s E off k f M
     = map_option (\<lambda>M'. (True, M'\<lparr>SubRangeOffset := SubRangeOffset M\<rparr>))
         (SetOffset s E off k f (M\<lparr>SubRangeOffset := 0\<rparr>))"
proof -
  have m: "M\<lparr>SubRangeOffset := SubRangeOffset M\<rparr> = M" by simp
  have a: "AddEditUnit s E k f M
     = (AddEditUnit s (E - SubRangeOffset M) k f (M\<lparr>SubRangeOffset := 0\<rparr>))
         \<lparr>SubRangeOffset := SubRangeOffset M\<rparr>"
    using AddEditUnit_SubRangeOffset [where M = M and d = "SubRangeOffset M" and s = s and E = E and k = k and f = f] by (simp only: m)
  have b: "SetTemporalOffset E toff M
     = (SetTemporalOffset (E - SubRangeOffset M) toff (M\<lparr>SubRangeOffset := 0\<rparr>))
         \<lparr>SubRangeOffset := SubRangeOffset M\<rparr>"
    using SetTemporalOffset_SubRangeOffset [where M = M and d = "SubRangeOffset M" and E = E and off = toff] by (simp only: m)
  have c: "SetKeyOffset E koff M
     = (SetKeyOffset (E - SubRangeOffset M) koff (M\<lparr>SubRangeOffset := 0\<rparr>))
         \<lparr>SubRangeOffset := SubRangeOffset M\<rparr>"
    using SetKeyOffset_SubRangeOffset [where M = M and d = "SubRangeOffset M" and E = E and off = koff] by (simp only: m)
  have d: "SetFlags E f M
     = (SetFlags (E - SubRangeOffset M) f (M\<lparr>SubRangeOffset := 0\<rparr>))
         \<lparr>SubRangeOffset := SubRangeOffset M\<rparr>"
    using SetFlags_SubRangeOffset [where M = M and d = "SubRangeOffset M" and E = E and f = f] by (simp only: m)
  have e: "SetOffset s E off k f M
     = map_option (\<lambda>M'. M'\<lparr>SubRangeOffset := SubRangeOffset M\<rparr>)
         (SetOffset s E off k f (M\<lparr>SubRangeOffset := 0\<rparr>))"
    using SetOffset_SubRangeOffset [where M = M and d = "SubRangeOffset M" and s = s and E = E and off = off and k = k and f = f] by (simp only: m)
  have g: "OfferOffset s E off k f M
     = map_option (\<lambda>M'. (True, M'\<lparr>SubRangeOffset := SubRangeOffset M\<rparr>))
         (SetOffset s E off k f (M\<lparr>SubRangeOffset := 0\<rparr>))"
    unfolding OfferOffset_def by (subst e) (simp add: option.map_comp comp_def)
  have h: "OfferEditUnit s E k f M
     = (True, (AddEditUnit s (E - SubRangeOffset M) k f (M\<lparr>SubRangeOffset := 0\<rparr>))
                \<lparr>SubRangeOffset := SubRangeOffset M\<rparr>)"
    unfolding OfferEditUnit_def using a by simp
  show ?thesis using a h b c d e g by (intro conjI)
qed

text \<open>C5 as stated lists \<open>SetOffset\<close> among the calls that subtract. With a sub-range
  offset of 10, \<open>SetOffset\<close> at edit unit 30 records the offset under 30 and nothing
  under 20, where \<open>AddEditUnit\<close> at 30 creates its entry.\<close>

theorem SetOffset_keeps_position_counterexample:
  "map_option (\<lambda>M'. (ManagedData M' 20 = None, map_option StreamOffset (ManagedData M' 30)))
     (SetOffset 0 30 4096 0 (- 1) (example_manager\<lparr>SubRangeOffset := 10\<rparr>))
     = Some (True, Some [4096])
   \<and> ManagedData (AddEditUnit 0 30 0 (- 1) (example_manager\<lparr>SubRangeOffset := 10\<rparr>)) 30 = None
   \<and> map_option StreamOffset
        (ManagedData (AddEditUnit 0 30 0 (- 1) (example_manager\<lparr>SubRangeOffset := 10\<rparr>)) 20)
       = Some [0]"
  by (simp add: SetOffset_def AddEditUnit_def example_manager_def IndexManager_new_def
      ThisEntry_for_def provisional_at_def new_IndexData_def sizeof_IndexData_def std_insert_def
      store_entry_def set_per_entry_def Log_def Let_def)


section \<open>Unsatisfied temporal offsets\<close>

text \<open>The temporal offset of an edit unit that is not there yet is parked, and the entry
  that \<open>AddEditUnit\<close> creates for the edit unit takes it.\<close>

lemma SetTemporalOffset_parks_offset:
  assumes "\<not> DataIsCBR M" and "provisional_at M (E - SubRangeOffset M) = None"
    and "ManagedData M (E - SubRangeOffset M) = None"
    and "UnsatisfiedTemporalOffsets M (E - SubRangeOffset M) = None"
  shows "UnsatisfiedTemporalOffsets (SetTemporalOffset E toff M) (E - SubRangeOffset M) = Some toff"
  using assms
  by (simp add: SetTemporalOffset_def Let_def std_insert_def provisional_at_def
      split: option.splits if_splits)

lemma AddEditUnit_takes_parked_offset:
  assumes "\<not> DataIsCBR M" and "ProvisionalEntry M = None"
    and "ManagedData M (E - SubRangeOffset M) = None"
    and "UnsatisfiedTemporalOffsets M (E - SubRangeOffset M) = Some toff"
  shows "map_option IndexData.TemporalOffset
           (ManagedData (AddEditUnit s E k f M) (E - SubRangeOffset M)) = Some toff
         \<and> UnsatisfiedTemporalOffsets (AddEditUnit s E k f M) (E - SubRangeOffset M) = None"
  using assms
  by (simp add: AddEditUnit_def ThisEntry_for_def provisional_at_def std_insert_def
      store_entry_def set_per_entry_def Log_def Let_def split: option.splits)

text \<open>C6, the code at the failing input. \<open>SetTemporalOffset(5, 2)\<close> on a new manager:
  edit unit 5 and its partner 7 are both absent. The offset 2 is parked under 5, but the
  reverse offset \<open>-2\<close> of the partner is parked under 5 as well, not under 7 (line 1888
  inserts with the key \<open>EditUnit\<close>, after line 1877 searched for
  \<open>EditUnit + Offset\<close>). The entry then created for 7 has a \<open>TemporalDiff\<close> of 0 and the
  parked value stays; the entry created for 5 takes it instead.\<close>

theorem SetTemporalOffset_parks_diff_under_wrong_unit:
  "UnsatisfiedTemporalOffsets (SetTemporalOffset 5 2 example_manager) 5 = Some 2
   \<and> UnsatisfiedTemporalDiffs (SetTemporalOffset 5 2 example_manager) 7 = None
   \<and> UnsatisfiedTemporalDiffs (SetTemporalOffset 5 2 example_manager) 5 = Some (- 2)
   \<and> map_option TemporalDiff
        (ManagedData (AddEditUnit 0 7 0 (- 1) (SetTemporalOffset 5 2 example_manager)) 7)
       = Some 0
   \<and> UnsatisfiedTemporalDiffs (AddEditUnit 0 7 0 (- 1) (SetTemporalOffset 5 2 example_manager)) 5
       = Some (- 2)
   \<and> map_option (\<lambda>e. (IndexData.TemporalOffset e, TemporalDiff e))
        (ManagedData
           (AddEditUnit 0 5 0 (- 1)
              (AddEditUnit 0 7 0 (- 1) (SetTemporalOffset 5 2 example_manager))) 5)
       = Some (2, - 2)"
  by (simp add: SetTemporalOffset_def AddEditUnit_def example_manager_def IndexManager_new_def
      ThisEntry_for_def provisional_at_def new_IndexData_def sizeof_IndexData_def std_insert_def
      store_entry_def set_per_entry_def Log_def int32_def Let_def)

end
